theory Spec2Isabelle
  imports Complex_Main "HOL-Library.Log_Nat" "HOL-Library.Sublist"
begin

section \<open>JavaScript numbers\<close>

text \<open>
  The TypeScript type \<open>number\<close> is an IEEE-754 binary64 value. A finite value is kept
  as the rational it denotes; every arithmetic operation computes the exact rational
  result and rounds it to the nearest double, ties to even, overflowing to an infinity.
  The two zeros are identified: the program divides only by the literal \<open>1_000_000\<close>,
  and \<open>toFixed\<close> prints \<open>-0\<close> as it prints \<open>0\<close>.
\<close>

datatype number = NaN | PosInf | NegInf | Fin rat

text \<open>\<open>ilog2 x\<close> is the binary exponent of a positive rational: \<open>2^(ilog2 x) \<le> x < 2^(ilog2 x + 1)\<close>.\<close>

definition ilog2 :: "rat \<Rightarrow> int" where
  "ilog2 x = (case quotient_of x of (p, q) \<Rightarrow>
     (let d = bitlen p - bitlen q in if 2 powi d \<le> x then d else d - 1))"

definition round_half_even :: "rat \<Rightarrow> int" where
  "round_half_even q =
     (let f = \<lfloor>q\<rfloor>; r = q - of_int f
      in if r < 1 / 2 then f else if 1 / 2 < r then f + 1 else if even f then f else f + 1)"

text \<open>The exponent of the unit in the last place: 53 significant bits, subnormals from \<open>2^-1074\<close>.\<close>

definition ulp_exp :: "rat \<Rightarrow> int" where
  "ulp_exp x = max (ilog2 x - 52) (- 1074)"

definition round_pos :: "rat \<Rightarrow> rat" where
  "round_pos x = of_int (round_half_even (x / 2 powi ulp_exp x)) * 2 powi ulp_exp x"

text \<open>Results of magnitude \<open>2^1024\<close> or more overflow to an infinity.\<close>

definition overflow_bound :: rat where
  "overflow_bound = 2 ^ 1024"

definition overflow :: "rat \<Rightarrow> number" where
  "overflow r = (if overflow_bound \<le> r then PosInf else Fin r)"

fun js_neg :: "number \<Rightarrow> number" where
  "js_neg NaN = NaN"
| "js_neg PosInf = NegInf"
| "js_neg NegInf = PosInf"
| "js_neg (Fin x) = Fin (- x)"

definition to_double :: "rat \<Rightarrow> number" where
  "to_double x =
     (if x = 0 then Fin 0
      else if 0 < x then overflow (round_pos x)
      else js_neg (overflow (round_pos (- x))))"

text \<open>A numeric literal of the source denotes the double nearest to its decimal value.\<close>

definition lit :: "rat \<Rightarrow> number" where
  "lit x = to_double x"

definition is_double :: "rat \<Rightarrow> bool" where
  "is_double x \<longleftrightarrow> to_double x = Fin x"

fun sign_of :: "number \<Rightarrow> int" where
  "sign_of NaN = 0"
| "sign_of PosInf = 1"
| "sign_of NegInf = - 1"
| "sign_of (Fin x) = (if 0 < x then 1 else if x < 0 then - 1 else 0)"

definition inf_of_sign :: "int \<Rightarrow> number" where
  "inf_of_sign s = (if s = 0 then NaN else if 0 < s then PosInf else NegInf)"

fun js_add :: "number \<Rightarrow> number \<Rightarrow> number" where
  "js_add NaN b = NaN"
| "js_add PosInf b = (if b = NaN \<or> b = NegInf then NaN else PosInf)"
| "js_add NegInf b = (if b = NaN \<or> b = PosInf then NaN else NegInf)"
| "js_add (Fin x) (Fin y) = to_double (x + y)"
| "js_add (Fin x) b = b"

fun js_mul :: "number \<Rightarrow> number \<Rightarrow> number" where
  "js_mul NaN b = NaN"
| "js_mul a NaN = NaN"
| "js_mul (Fin x) (Fin y) = to_double (x * y)"
| "js_mul a b = inf_of_sign (sign_of a * sign_of b)"

text \<open>
  Division. A zero divisor is read as \<open>+0\<close>; the program's only divisor is the literal
  \<open>1_000_000\<close>.
\<close>

fun js_div :: "number \<Rightarrow> number \<Rightarrow> number" where
  "js_div NaN b = NaN"
| "js_div a NaN = NaN"
| "js_div (Fin x) (Fin y) =
     (if y = 0 then inf_of_sign (sign_of (Fin x)) else to_double (x / y))"
| "js_div (Fin x) b = Fin 0"
| "js_div a (Fin y) = inf_of_sign (sign_of a * (if y < 0 then - 1 else 1))"
| "js_div a b = NaN"

text \<open>The relational operators: every comparison with \<open>NaN\<close> is false.\<close>

fun js_lt :: "number \<Rightarrow> number \<Rightarrow> bool" where
  "js_lt NaN b = False"
| "js_lt a NaN = False"
| "js_lt (Fin x) (Fin y) = (x < y)"
| "js_lt PosInf b = False"
| "js_lt a PosInf = True"
| "js_lt a NegInf = False"
| "js_lt NegInf b = True"

fun js_le :: "number \<Rightarrow> number \<Rightarrow> bool" where
  "js_le NaN b = False"
| "js_le a NaN = False"
| "js_le a b = (\<not> js_lt b a)"

section \<open>The pricing catalog (\<open>src/lib/models.ts\<close>)\<close>

datatype Provider = OpenAI | Anthropic | Google

record ModelConfig =
  id_str :: string
  name :: string
  provider :: Provider
  inputCostPer1MTokens :: number
  outputCostPer1MTokens :: number

definition MODELS :: "ModelConfig list" where
  "MODELS =
    [\<lparr>id_str = ''openai/gpt-4o'', name = ''GPT-4o'', provider = OpenAI,
      inputCostPer1MTokens = lit (5 / 2), outputCostPer1MTokens = lit 10\<rparr>,
     \<lparr>id_str = ''openai/gpt-4o-mini'', name = ''GPT-4o Mini'', provider = OpenAI,
      inputCostPer1MTokens = lit (15 / 100), outputCostPer1MTokens = lit (6 / 10)\<rparr>,
     \<lparr>id_str = ''openai/gpt-5-mini'', name = ''GPT-5 Mini'', provider = OpenAI,
      inputCostPer1MTokens = lit (3 / 10), outputCostPer1MTokens = lit (12 / 10)\<rparr>,
     \<lparr>id_str = ''anthropic/claude-sonnet-4-5-20250929'', name = ''Claude Sonnet 4.5'',
      provider = Anthropic,
      inputCostPer1MTokens = lit 3, outputCostPer1MTokens = lit 15\<rparr>,
     \<lparr>id_str = ''google/gemini-2.0-flash'', name = ''Gemini 2.0 Flash'', provider = Google,
      inputCostPer1MTokens = lit (1 / 10), outputCostPer1MTokens = lit (4 / 10)\<rparr>,
     \<lparr>id_str = ''google/gemini-2.5-pro'', name = ''Gemini 2.5 Pro'', provider = Google,
      inputCostPer1MTokens = lit (125 / 100), outputCostPer1MTokens = lit 5\<rparr>]"

section \<open>The cost calculator\<close>

definition calculateCost :: "ModelConfig \<Rightarrow> number \<Rightarrow> number \<Rightarrow> number" where
  "calculateCost model promptTokens completionTokens =
     js_add
       (js_mul (js_div promptTokens (lit 1000000)) (inputCostPer1MTokens model))
       (js_mul (js_div completionTokens (lit 1000000)) (outputCostPer1MTokens model))"

text \<open>
  A token count or a price as the spec's data model has it: a finite double that is not
  negative.
\<close>

fun finite_nonneg :: "number \<Rightarrow> bool" where
  "finite_nonneg (Fin x) = (is_double x \<and> 0 \<le> x)"
| "finite_nonneg a = False"

text \<open>
  The call site in \<open>src/app/page.tsx\<close> (lines 165 to 170) looks an entry up with
  \<open>MODELS.find((m) => m.id === modelId)!\<close>. \<open>Array.prototype.find\<close> returns
  \<open>undefined\<close> (here \<open>None\<close>) when no element matches and never throws; the
  non-null assertion \<open>!\<close> is erased at run time. An evaluation either throws or
  completes with a value, so its outcome is a sum with the error on the left.
\<close>

text \<open>
  \<open>RangeError\<close> and \<open>TypeError\<close> are the errors the built-ins used here can throw,
  \<open>UrlError\<close> the one the store client's constructor throws. \<open>NotFound\<close> is the
  condition the spec names for a lookup miss; no code of the repository raises it.
\<close>

datatype js_error = RangeError | TypeError | UrlError | NotFound

definition MODELS_find :: "string \<Rightarrow> js_error + ModelConfig option" where
  "MODELS_find modelId = Inr (List.find (\<lambda>m. id_str m = modelId) MODELS)"

text \<open>
  \<open>const config = MODELS.find(...)!; const cost = calculateCost(config, ...)\<close>: reading
  \<open>model.inputCostPer1MTokens\<close> of \<open>undefined\<close> throws a \<open>TypeError\<close>.
\<close>

definition extraction_cost :: "string \<Rightarrow> number \<Rightarrow> number \<Rightarrow> js_error + number" where
  "extraction_cost modelId promptTokens completionTokens =
     (case MODELS_find modelId of
        Inl e \<Rightarrow> Inl e
      | Inr None \<Rightarrow> Inl TypeError
      | Inr (Some config) \<Rightarrow> Inr (calculateCost config promptTokens completionTokens))"

section \<open>Formatting a cost\<close>

subsection \<open>\<open>Number.prototype.toFixed\<close> and \<open>Number::toString\<close> (ECMA-262)\<close>

text \<open>The decimal digits of a non-negative integer, with no leading zeros.\<close>

definition digit_char :: "int \<Rightarrow> char" where
  "digit_char d = ''0123456789'' ! nat d"

function dec_digits :: "int \<Rightarrow> string" where
  "dec_digits n = (if n < 10 then [digit_char n] else dec_digits (n div 10) @ [digit_char (n mod 10)])"
  by pat_completeness auto
termination
  by (relation "measure nat") auto

text \<open>
  \<open>Number::toString\<close> for a finite \<open>x \<ge> 10^21\<close>, the only finite values \<open>toFixed\<close>
  hands to it. ECMA-262 asks for integers \<open>n\<close>, \<open>k\<close>, \<open>s\<close> with \<open>k \<ge> 1\<close>,
  \<open>10^(k-1) \<le> s < 10^k\<close>, \<open>s * 10^(n-k)\<close> rounding to \<open>x\<close> and \<open>k\<close> as small as
  possible, and among several \<open>s\<close> recommends the one nearest to \<open>x\<close>. Since \<open>n > 21\<close>
  the result is in exponent notation. The decimal point position \<open>n\<close> is the number of
  digits of \<open>x\<close> or one more, and for each \<open>k\<close> the candidates for \<open>s\<close> are the two
  integers around \<open>x / 10^(n-k)\<close>.
\<close>

definition digit_candidates :: "rat \<Rightarrow> nat \<Rightarrow> (int \<times> nat \<times> int) list" where
  "digit_candidates x k =
     (let n0 = int (length (dec_digits \<lfloor>x\<rfloor>)) in
      [(n, k, s).
         n \<leftarrow> [n0, n0 + 1],
         s \<leftarrow> [\<lfloor>x / 10 powi (n - int k)\<rfloor>, \<lfloor>x / 10 powi (n - int k)\<rfloor> + 1],
         10 ^ (k - 1) \<le> s \<and> s < 10 ^ k \<and> to_double (of_int s * 10 powi (n - int k)) = Fin x])"

fun shortest_digits :: "nat \<Rightarrow> nat \<Rightarrow> rat \<Rightarrow> (int \<times> nat \<times> int) option" where
  "shortest_digits 0 k x = None"
| "shortest_digits (Suc fuel) k x =
     (case digit_candidates x k of
        [] \<Rightarrow> shortest_digits fuel (Suc k) x
      | c # cs \<Rightarrow>
          Some (arg_min_list (\<lambda>(n, k, s). \<bar>of_int s * 10 powi (n - int k) - x\<bar>) (c # cs)))"

definition toString_large :: "rat \<Rightarrow> string" where
  "toString_large x =
     (case shortest_digits 17 1 x of
        None \<Rightarrow> []
      | Some (n, k, s) \<Rightarrow>
          (if k = 1 then dec_digits s
           else take 1 (dec_digits s) @ ''.'' @ drop 1 (dec_digits s))
          @ ''e+'' @ dec_digits (n - 1))"

text \<open>
  Step 11 of \<open>toFixed\<close>: the digits of \<open>n\<close>, padded with zeros to more than \<open>f\<close>
  digits, with a point before the last \<open>f\<close>.
\<close>

definition fixed_digits :: "int \<Rightarrow> nat \<Rightarrow> string" where
  "fixed_digits n f =
     (let m = dec_digits n in
      if f = 0 then m
      else
        let m' = (if length m \<le> f then replicate (f + 1 - length m) (CHR ''0'') @ m else m);
            k = length m'
        in take (k - f) m' @ ''.'' @ drop (k - f) m')"

text \<open>
  \<open>x.toFixed(f)\<close>. A digit count above 100 is a \<open>RangeError\<close>; a value that is not
  finite prints as \<open>Number::toString\<close> prints it; a magnitude of \<open>10^21\<close> or more
  prints in exponent notation; otherwise \<open>n\<close> is the integer for which \<open>n / 10^f\<close>
  is nearest to the magnitude, the larger one on a tie.
\<close>

definition toFixed :: "number \<Rightarrow> nat \<Rightarrow> js_error + string" where
  "toFixed x f =
     (if 100 < f then Inl RangeError
      else Inr (case x of
          NaN \<Rightarrow> ''NaN''
        | PosInf \<Rightarrow> ''Infinity''
        | NegInf \<Rightarrow> ''-Infinity''
        | Fin r \<Rightarrow>
            (if r < 0 then ''-'' else []) @
            (if 10 ^ 21 \<le> \<bar>r\<bar> then toString_large \<bar>r\<bar>
             else fixed_digits \<lfloor>\<bar>r\<bar> * 10 ^ f + 1 / 2\<rfloor> f)))"

subsection \<open>\<open>formatCost\<close> (\<open>src/lib/models.ts\<close>)\<close>

text \<open>The template literal puts a dollar sign before the string.\<close>

definition dollar :: "js_error + string \<Rightarrow> js_error + string" where
  "dollar r = (case r of Inl e \<Rightarrow> Inl e | Inr s \<Rightarrow> Inr (''$'' @ s))"

definition formatCost :: "number \<Rightarrow> js_error + string" where
  "formatCost cost =
     (if js_lt cost (lit (1 / 1000)) then dollar (toFixed cost 6)
      else if js_lt cost (lit (1 / 100)) then dollar (toFixed cost 5)
      else if js_lt cost (lit 1) then dollar (toFixed cost 4)
      else dollar (toFixed cost 2))"

text \<open>
  The number of fractional digits of a rendered cost: the string is a dollar sign, an
  optional minus sign, one or more digits, and then either nothing or a point followed
  by one or more digits. Any other string has no fractional-digit count.
\<close>

definition is_digit :: "char \<Rightarrow> bool" where
  "is_digit c \<longleftrightarrow> c \<in> set ''0123456789''"

definition fraction_digits :: "string \<Rightarrow> nat option" where
  "fraction_digits s =
     (let t = (case s of c # u \<Rightarrow> if c = CHR ''-'' then u else s | [] \<Rightarrow> s);
          a = takeWhile is_digit t; b = dropWhile is_digit t
      in if a = [] then None
         else case b of
             [] \<Rightarrow> Some 0
           | c # d \<Rightarrow> if c = CHR ''.'' \<and> d \<noteq> [] \<and> list_all is_digit d then Some (length d) else None)"

definition cost_fraction_digits :: "js_error + string \<Rightarrow> nat option" where
  "cost_fraction_digits r =
     (case r of
        Inr (c # s) \<Rightarrow> if c = CHR ''$'' then fraction_digits s else None
      | _ \<Rightarrow> None)"

section \<open>The rate limiter (module \<open>@/lib/ratelimit\<close>, in \<open>src/lib/models.ts\<close> lines 77 to 103)\<close>

text \<open>
  The client handle built by \<open>new Ratelimit({redis: new Redis({url, token}), limiter:
  Ratelimit.fixedWindow(5, "1 d"), analytics: true})\<close>. \<open>serial\<close> is the object's
  identity: the number of handles constructed before it.
\<close>

record Ratelimit =
  redis_url :: string
  redis_token :: string
  tokens :: nat
  window_ms :: nat
  analytics :: bool
  serial :: nat

record RateLimitDecision =
  success :: bool
  limit :: nat
  remaining :: nat
  reset :: nat

text \<open>
  \<open>process.env\<close> as one call reads it: a variable is \<open>undefined\<close> (\<open>None\<close>) or a string.
\<close>

record env =
  UPSTASH_REDIS_REST_URL :: "string option"
  UPSTASH_REDIS_REST_TOKEN :: "string option"

text \<open>
  The state the calls share: the module variable \<open>_ratelimit\<close>, and the external
  store's counters, one per identifier and window. \<open>constructed\<close> counts the handles
  built so far and \<open>store_requests\<close> the requests sent to the store.
\<close>

record world =
  ratelimit_var :: "Ratelimit option"
  constructed :: nat
  counters :: "string \<times> nat \<Rightarrow> nat"
  store_requests :: nat

text \<open>JavaScript truthiness of a string or \<open>undefined\<close>: \<open>!v\<close> holds for \<open>undefined\<close> and for the empty string.\<close>

definition falsy :: "string option \<Rightarrow> bool" where
  "falsy v \<longleftrightarrow> v = None \<or> v = Some []"

text \<open>
  \<open>getRatelimit\<close>. The constructors \<open>new Redis\<close> and \<open>new Ratelimit\<close> are code of the
  \<open>@upstash\<close> packages and may throw: the Redis client rejects a URL it cannot parse
  with a \<open>UrlError\<close>, also one that starts with \<open>https\<close>. What they accept is the
  parameter \<open>accepts\<close>, given the URL and the token. When a constructor throws, the
  assignment to \<open>_ratelimit\<close> is not reached, the variable stays \<open>null\<close> and the error
  leaves \<open>getRatelimit\<close>.
\<close>

definition getRatelimit ::
  "(string \<Rightarrow> string \<Rightarrow> bool) \<Rightarrow> env \<Rightarrow> world \<Rightarrow> (js_error + Ratelimit option) \<times> world" where
  "getRatelimit accepts e w =
     (case ratelimit_var w of
        Some rl \<Rightarrow> (Inr (Some rl), w)
      | None \<Rightarrow>
          if falsy (UPSTASH_REDIS_REST_URL e) \<or> falsy (UPSTASH_REDIS_REST_TOKEN e)
             \<or> \<not> prefix ''https'' (the (UPSTASH_REDIS_REST_URL e))
          then (Inr None, w)
          else if \<not> accepts (the (UPSTASH_REDIS_REST_URL e)) (the (UPSTASH_REDIS_REST_TOKEN e))
          then (Inl UrlError, w)
          else
            let rl = \<lparr>redis_url = the (UPSTASH_REDIS_REST_URL e),
                      redis_token = the (UPSTASH_REDIS_REST_TOKEN e),
                      tokens = 5, window_ms = 86400000, analytics = True,
                      serial = constructed w\<rparr>
            in (Inr (Some rl), w\<lparr>ratelimit_var := Some rl, constructed := constructed w + 1\<rparr>))"

text \<open>
  Modelled from the spec: the external store's \<open>limit\<close> primitive, which is code of the
  \<open>@upstash/ratelimit\<close> package and not of this repository. The spec describes an atomic
  fixed-window counter: one counter per identifier and window, a window boundary
  resetting it to zero; a request increments the counter and is admitted while the
  count does not exceed the quota; \<open>remaining\<close> is what is left of the quota and
  \<open>reset\<close> the end of the window. \<open>now\<close> is the store's clock in milliseconds.
\<close>

definition store_limit ::
  "Ratelimit \<Rightarrow> (string \<times> nat \<Rightarrow> nat) \<Rightarrow> nat \<Rightarrow> string
     \<Rightarrow> RateLimitDecision \<times> (string \<times> nat \<Rightarrow> nat)" where
  "store_limit rl cs now identifier =
     (let bucket = now div window_ms rl;
          used = cs (identifier, bucket) + 1
      in (\<lparr>success = used \<le> tokens rl, limit = tokens rl,
           remaining = tokens rl - used, reset = (bucket + 1) * window_ms rl\<rparr>,
          cs((identifier, bucket) := used)))"

text \<open>
  \<open>checkRateLimit\<close>: an error thrown by \<open>getRatelimit\<close> rejects the promise the call
  returns, and nothing is sent to the store.
\<close>

definition checkRateLimit ::
  "(string \<Rightarrow> string \<Rightarrow> bool) \<Rightarrow> env \<Rightarrow> nat \<Rightarrow> string \<Rightarrow> world
     \<Rightarrow> (js_error + RateLimitDecision) \<times> world" where
  "checkRateLimit accepts e now identifier w =
     (case getRatelimit accepts e w of
        (Inl err, w') \<Rightarrow> (Inl err, w')
      | (Inr None, w') \<Rightarrow> (Inr \<lparr>success = True, limit = 0, remaining = 0, reset = 0\<rparr>, w')
      | (Inr (Some rl), w') \<Rightarrow>
          (case store_limit rl (counters w') now identifier of
             (d, cs) \<Rightarrow> (Inr d, w'\<lparr>counters := cs, store_requests := store_requests w' + 1\<rparr>)))"

text \<open>
  A sequence of calls, each with the environment and the clock it meets and its
  identifier: the outcomes in order, and the final state.
\<close>

fun run ::
  "(string \<Rightarrow> string \<Rightarrow> bool) \<Rightarrow> (env \<times> nat \<times> string) list \<Rightarrow> world
     \<Rightarrow> (js_error + RateLimitDecision) list \<times> world" where
  "run accepts [] w = ([], w)"
| "run accepts ((e, now, identifier) # calls) w =
     (case checkRateLimit accepts e now identifier w of
        (d, w') \<Rightarrow> (case run accepts calls w' of (ds, w'') \<Rightarrow> (d # ds, w'')))"

text \<open>
  The handle each call of a sequence obtains from \<open>getRatelimit\<close>; a call in which it
  throws obtains none.
\<close>

fun obtained :: "js_error + Ratelimit option \<Rightarrow> Ratelimit option" where
  "obtained (Inl err) = None"
| "obtained (Inr h) = h"

fun handles ::
  "(string \<Rightarrow> string \<Rightarrow> bool) \<Rightarrow> (env \<times> nat \<times> string) list \<Rightarrow> world \<Rightarrow> Ratelimit option list" where
  "handles accepts [] w = []"
| "handles accepts ((e, now, identifier) # calls) w =
     obtained (fst (getRatelimit accepts e w))
       # handles accepts calls (snd (checkRateLimit accepts e now identifier w))"

definition fresh_world :: world where
  "fresh_world = \<lparr>ratelimit_var = None, constructed = 0, counters = (\<lambda>_. 0), store_requests = 0\<rparr>"

text \<open>The test of the source: both values present and the URL starting with \<open>https\<close>.\<close>

definition configured :: "env \<Rightarrow> bool" where
  "configured e \<longleftrightarrow>
     \<not> falsy (UPSTASH_REDIS_REST_URL e) \<and> \<not> falsy (UPSTASH_REDIS_REST_TOKEN e)
     \<and> prefix ''https'' (the (UPSTASH_REDIS_REST_URL e))"

text \<open>
  The limiter is on for a sequence of calls when a handle with the policy of the source
  is already cached, or none is and the first call finds a configuration that passes
  the test and that the constructors accept; what the later calls find does not matter.
\<close>

definition limiter_on ::
  "(string \<Rightarrow> string \<Rightarrow> bool) \<Rightarrow> world \<Rightarrow> (env \<times> nat \<times> string) list \<Rightarrow> bool" where
  "limiter_on accepts w calls \<longleftrightarrow>
     (case ratelimit_var w of
        Some rl \<Rightarrow> tokens rl = 5 \<and> window_ms rl = 86400000
      | None \<Rightarrow>
          (case calls of
             [] \<Rightarrow> True
           | (e, now, identifier) # later \<Rightarrow>
               configured e
               \<and> accepts (the (UPSTASH_REDIS_REST_URL e)) (the (UPSTASH_REDIS_REST_TOKEN e))))"

text \<open>
  The number of calls before the \<open>k\<close>-th of a sequence that have its identifier and fall
  into its window.
\<close>

definition earlier_same :: "(env \<times> nat \<times> string) list \<Rightarrow> nat \<Rightarrow> nat" where
  "earlier_same calls k =
     length (filter (\<lambda>(e, now, identifier).
         identifier = snd (snd (calls ! k))
         \<and> now div 86400000 = fst (snd (calls ! k)) div 86400000) (take k calls))"

section \<open>Properties\<close>

subsection \<open>Rounding to the nearest double\<close>

lemma overflow_bound_code [code]:
  "overflow_bound =
     179769313486231590772930519078902473361797697894230657273430081157732675805500963132708477322407536021120113879871393357658789768814416622492847430639474124377767893424865485276302219601246094119453082952085005768838150682342462881473913110540827237163350510684586298239947245938479716304835356329624224137216"
  by (simp add: overflow_bound_def)

lemma pow2_pos: "0 < (2::rat) powi k"
  by (simp add: zero_less_power_int)

lemma pow2_mono: "a \<le> b \<Longrightarrow> (2::rat) powi a \<le> 2 powi b"
  by (rule power_int_increasing) simp_all

lemma pow2_strict_mono: "a < b \<Longrightarrow> (2::rat) powi a < 2 powi b"
  by (rule power_int_strict_increasing) simp_all

lemma pow2_le_iff: "(2::rat) powi a \<le> 2 powi b \<longleftrightarrow> a \<le> b"
  using pow2_mono[of a b] pow2_strict_mono[of b a] by (auto simp: not_le[symmetric])

lemma pow2_less_iff: "(2::rat) powi a < 2 powi b \<longleftrightarrow> a < b"
  using pow2_mono[of b a] pow2_strict_mono[of a b] by (auto simp: not_less[symmetric])

lemma of_int_pow2_nat: "0 \<le> k \<Longrightarrow> (of_int (2 ^ nat k) :: rat) = 2 powi k"
  by (simp add: power_int_def)

lemma ilog2_bounds:
  assumes "0 < x"
  shows "2 powi ilog2 x \<le> x" and "x < 2 powi (ilog2 x + 1)"
proof -
  obtain p q where pq: "quotient_of x = (p, q)" by (cases "quotient_of x")
  have q: "0 < q" using pq by (rule quotient_of_denom_pos)
  have x: "x = of_int p / of_int q" using pq by (rule quotient_of_div)
  have p: "0 < p" using assms q x by (simp add: zero_less_divide_iff)
  define bp where "bp = bitlen p"
  define bq where "bq = bitlen q"
  have bp1: "1 \<le> bp" using p by (simp add: bp_def bitlen_alt_def)
  have bq1: "1 \<le> bq" using q by (simp add: bq_def bitlen_alt_def)
  have "2 ^ nat (bp - 1) \<le> p" "p < 2 ^ nat bp" "2 ^ nat (bq - 1) \<le> q" "q < 2 ^ nat bq"
    using bitlen_bounds[OF p] bitlen_bounds[OF q] by (simp_all add: bp_def bq_def)
  then have "(of_int (2 ^ nat (bp - 1)) :: rat) \<le> of_int p" "(of_int p :: rat) < of_int (2 ^ nat bp)"
    "(of_int (2 ^ nat (bq - 1)) :: rat) \<le> of_int q" "(of_int q :: rat) < of_int (2 ^ nat bq)"
    by (simp_all only: of_int_le_iff of_int_less_iff)
  then have b: "(2::rat) powi (bp - 1) \<le> of_int p" "(of_int p :: rat) < 2 powi bp"
    "(2::rat) powi (bq - 1) \<le> of_int q" "(of_int q :: rat) < 2 powi bq"
    using bp1 bq1 by (simp_all only: of_int_pow2_nat)
  have qpos: "(0::rat) < of_int q" using q by simp
  have up: "x < 2 powi (bp - bq + 1)"
  proof -
    have "of_int p < (2::rat) powi bp" by (rule b)
    also have "\<dots> = 2 powi (bp - bq + 1) * 2 powi (bq - 1)"
      by (simp add: power_int_add[symmetric])
    also have "\<dots> \<le> 2 powi (bp - bq + 1) * of_int q"
      using b(3) pow2_pos[of "bp - bq + 1"] by (simp add: mult_left_mono)
    finally show ?thesis using qpos by (simp add: x pos_divide_less_eq)
  qed
  have lo: "2 powi (bp - bq - 1) \<le> x"
  proof -
    have "2 powi (bp - bq - 1) * of_int q \<le> 2 powi (bp - bq - 1) * (2::rat) powi bq"
      using b(4) pow2_pos[of "bp - bq - 1"] by (simp add: mult_left_mono)
    also have "\<dots> = 2 powi (bp - 1)"
      by (simp add: power_int_add[symmetric])
    also have "\<dots> \<le> of_int p" by (rule b)
    finally show ?thesis using qpos by (simp add: x pos_le_divide_eq)
  qed
  have il: "ilog2 x = (if 2 powi (bp - bq) \<le> x then bp - bq else bp - bq - 1)"
    by (simp add: ilog2_def pq bp_def bq_def Let_def)
  show "2 powi ilog2 x \<le> x" using lo by (simp add: il)
  show "x < 2 powi (ilog2 x + 1)" using up by (simp add: il not_le)
qed

lemma ilog2_ge: "0 < x \<Longrightarrow> 2 powi k \<le> x \<Longrightarrow> k \<le> ilog2 x"
proof -
  assume "0 < x" "2 powi k \<le> x"
  then have "(2::rat) powi k < 2 powi (ilog2 x + 1)"
    using ilog2_bounds(2)[of x] by simp
  then show ?thesis by (simp add: pow2_less_iff)
qed

lemma ilog2_less: "0 < x \<Longrightarrow> x < 2 powi k \<Longrightarrow> ilog2 x < k"
proof -
  assume "0 < x" "x < 2 powi k"
  then have "(2::rat) powi ilog2 x < 2 powi k"
    using ilog2_bounds(1)[of x] by simp
  then show ?thesis by (simp add: pow2_less_iff)
qed

lemma ilog2_mono: "0 < x \<Longrightarrow> x \<le> y \<Longrightarrow> ilog2 x \<le> ilog2 y"
  using ilog2_ge[of y "ilog2 x"] ilog2_bounds(1)[of x] by simp

lemma rhe_bounds: "\<lfloor>q\<rfloor> \<le> round_half_even q" "round_half_even q \<le> \<lfloor>q\<rfloor> + 1"
  by (simp_all add: round_half_even_def Let_def)

lemma rhe_of_int [simp]: "round_half_even (of_int n) = n"
  by (simp add: round_half_even_def)

lemma rhe_ge_int: "of_int n \<le> q \<Longrightarrow> n \<le> round_half_even q"
  using rhe_bounds(1)[of q] by (simp add: le_floor_iff[symmetric])

lemma rhe_le_int: "q \<le> of_int n \<Longrightarrow> round_half_even q \<le> n"
proof (cases "q = of_int n")
  case True then show ?thesis by simp
next
  case False
  assume "q \<le> of_int n"
  with False have "q < of_int n" by simp
  then have "\<lfloor>q\<rfloor> < n" by (simp add: floor_less_iff)
  then show ?thesis using rhe_bounds(2)[of q] by simp
qed

lemma rhe_mono: "q \<le> q' \<Longrightarrow> round_half_even q \<le> round_half_even q'"
proof -
  assume le: "q \<le> q'"
  then have f: "\<lfloor>q\<rfloor> \<le> \<lfloor>q'\<rfloor>" by (rule floor_mono)
  show ?thesis
  proof (cases "\<lfloor>q\<rfloor> = \<lfloor>q'\<rfloor>")
    case True
    then show ?thesis using le by (auto simp: round_half_even_def Let_def)
  next
    case False
    with f have "\<lfloor>q\<rfloor> + 1 \<le> \<lfloor>q'\<rfloor>" by simp
    then show ?thesis using rhe_bounds(2)[of q] rhe_bounds(1)[of q'] by linarith
  qed
qed

lemma ulp_exp_le: "0 < x \<Longrightarrow> x \<le> 2 powi k \<Longrightarrow> - 1074 \<le> k \<Longrightarrow> ulp_exp x \<le> k"
proof -
  assume a: "0 < x" "x \<le> 2 powi k" "- 1074 \<le> k"
  have "(2::rat) powi ilog2 x \<le> 2 powi k" using ilog2_bounds(1)[OF a(1)] a(2) by simp
  then have "ilog2 x \<le> k" by (simp add: pow2_le_iff)
  then show ?thesis using a(3) by (simp add: ulp_exp_def)
qed

lemma round_pos_nonneg: "0 < x \<Longrightarrow> 0 \<le> round_pos x"
proof -
  assume "0 < x"
  then have "0 \<le> x / 2 powi ulp_exp x" by (simp add: pow2_pos less_imp_le)
  then have "0 \<le> round_half_even (x / 2 powi ulp_exp x)"
    using rhe_ge_int[of 0] by simp
  then show ?thesis by (simp add: round_pos_def pow2_pos less_imp_le)
qed

lemma round_pos_le_int:
  "x \<le> of_int n * 2 powi ulp_exp x \<Longrightarrow> round_pos x \<le> of_int n * 2 powi ulp_exp x"
proof -
  assume "x \<le> of_int n * 2 powi ulp_exp x"
  then have "x / 2 powi ulp_exp x \<le> of_int n" by (simp add: pos_divide_le_eq pow2_pos)
  then have "round_half_even (x / 2 powi ulp_exp x) \<le> n" by (rule rhe_le_int)
  then show ?thesis by (simp add: round_pos_def pow2_pos)
qed

lemma round_pos_ge_int:
  "of_int n * 2 powi ulp_exp x \<le> x \<Longrightarrow> of_int n * 2 powi ulp_exp x \<le> round_pos x"
proof -
  assume "of_int n * 2 powi ulp_exp x \<le> x"
  then have "of_int n \<le> x / 2 powi ulp_exp x" by (simp add: pos_le_divide_eq pow2_pos)
  then have "n \<le> round_half_even (x / 2 powi ulp_exp x)" by (rule rhe_ge_int)
  then show ?thesis by (simp add: round_pos_def pow2_pos)
qed

lemma pow2_split: "e \<le> k \<Longrightarrow> (2::rat) powi k = of_int (2 ^ nat (k - e)) * 2 powi e"
proof -
  assume "e \<le> k"
  then have "(of_int (2 ^ nat (k - e)) :: rat) = 2 powi (k - e)" by (simp add: power_int_def)
  then show ?thesis by (simp add: power_int_add[symmetric])
qed

lemma round_pos_le_pow2:
  assumes "0 < x" "x \<le> 2 powi k" "- 1074 \<le> k"
  shows "round_pos x \<le> 2 powi k"
proof -
  have "ulp_exp x \<le> k" using assms by (rule ulp_exp_le)
  then have eq: "(2::rat) powi k = of_int (2 ^ nat (k - ulp_exp x)) * 2 powi ulp_exp x"
    by (rule pow2_split)
  show ?thesis using round_pos_le_int[of x "2 ^ nat (k - ulp_exp x)"] assms(2) eq by simp
qed

lemma round_pos_ge_pow2:
  assumes "2 powi k \<le> x" "ulp_exp x \<le> k"
  shows "2 powi k \<le> round_pos x"
proof -
  have eq: "(2::rat) powi k = of_int (2 ^ nat (k - ulp_exp x)) * 2 powi ulp_exp x"
    using assms(2) by (rule pow2_split)
  show ?thesis using round_pos_ge_int[of "2 ^ nat (k - ulp_exp x)" x] assms(1) eq by simp
qed

lemma round_pos_mono:
  assumes "0 < x" "x \<le> y"
  shows "round_pos x \<le> round_pos y"
proof -
  have y: "0 < y" using assms by simp
  have il: "ilog2 x \<le> ilog2 y" using assms by (rule ilog2_mono)
  then have e: "ulp_exp x \<le> ulp_exp y" by (simp add: ulp_exp_def)
  show ?thesis
  proof (cases "ulp_exp x = ulp_exp y")
    case True
    have "x / 2 powi ulp_exp y \<le> y / 2 powi ulp_exp y"
      using assms(2) by (simp add: divide_right_mono pow2_pos less_imp_le)
    then have "round_half_even (x / 2 powi ulp_exp y) \<le> round_half_even (y / 2 powi ulp_exp y)"
      by (rule rhe_mono)
    then show ?thesis by (simp add: round_pos_def True pow2_pos)
  next
    case False
    with e have lt: "ulp_exp x < ulp_exp y" by simp
    define k where "k = ilog2 y"
    have ey: "ulp_exp y = k - 52" "- 1074 < k - 52" and kx: "ilog2 x + 1 \<le> k"
      using lt by (auto simp: ulp_exp_def k_def max_def split: if_splits)
    have "x < 2 powi (ilog2 x + 1)" using assms(1) by (rule ilog2_bounds)
    also have "\<dots> \<le> 2 powi k" using kx by (rule pow2_mono)
    finally have "x \<le> 2 powi k" by simp
    then have a: "round_pos x \<le> 2 powi k"
      using assms(1) ey(2) by (intro round_pos_le_pow2) simp_all
    have "2 powi k \<le> y" unfolding k_def using y by (rule ilog2_bounds)
    then have "2 powi k \<le> round_pos y"
      using ey(1) by (intro round_pos_ge_pow2) simp_all
    with a show ?thesis by simp
  qed
qed

lemma js_le_simps [simp]:
  "js_le (Fin a) (Fin b) = (a \<le> b)"
  "js_le (Fin a) PosInf"
  "js_le NegInf (Fin a)"
  "js_le PosInf PosInf"
  "js_le NegInf NegInf"
  "js_le NegInf PosInf"
  "\<not> js_le PosInf (Fin a)"
  "\<not> js_le (Fin a) NegInf"
  "\<not> js_le PosInf NegInf"
  by auto

lemma overflow_mono: "r \<le> r' \<Longrightarrow> js_le (overflow r) (overflow r')"
  by (simp add: overflow_def)

lemma js_le_neg: "js_le a b \<Longrightarrow> js_le (js_neg b) (js_neg a)"
  by (cases a; cases b) simp_all

lemma overflow_nonneg: "0 \<le> r \<Longrightarrow> js_le (Fin 0) (overflow r)"
  by (simp add: overflow_def)

lemma js_le_trans: "js_le a b \<Longrightarrow> js_le b c \<Longrightarrow> js_le a c"
  by (cases a; cases b; cases c) simp_all

lemma to_double_nonneg: "0 \<le> x \<Longrightarrow> js_le (Fin 0) (to_double x)"
  by (simp add: to_double_def overflow_nonneg round_pos_nonneg)

lemma to_double_nonpos: "x \<le> 0 \<Longrightarrow> js_le (to_double x) (Fin 0)"
  using js_le_neg[OF overflow_nonneg[OF round_pos_nonneg[of "- x"]]]
  by (simp add: to_double_def)

lemma to_double_mono: "x \<le> y \<Longrightarrow> js_le (to_double x) (to_double y)"
proof -
  assume le: "x \<le> y"
  consider "0 < x" | "x \<le> 0" "0 \<le> y" | "y < 0" by linarith
  then show ?thesis
  proof cases
    case 1
    then show ?thesis using le round_pos_mono[of x y]
      by (simp add: to_double_def overflow_mono)
  next
    case 2
    then show ?thesis using js_le_trans[OF to_double_nonpos to_double_nonneg] by simp
  next
    case 3
    then have "round_pos (- y) \<le> round_pos (- x)" using le by (intro round_pos_mono) simp_all
    then have "js_le (js_neg (overflow (round_pos (- x)))) (js_neg (overflow (round_pos (- y))))"
      by (intro js_le_neg overflow_mono)
    then show ?thesis using 3 le by (simp add: to_double_def)
  qed
qed

subsection \<open>Arithmetic on non-negative numbers\<close>

lemma lit_million: "lit 1000000 = Fin 1000000"
  by code_simp

lemma overflow_bound_pow2: "overflow_bound = 2 powi 1024"
  by (simp add: overflow_bound_def)

lemma overflow_Fin: "overflow r = Fin x \<Longrightarrow> r = x \<and> x < overflow_bound"
  by (simp add: overflow_def split: if_splits)

lemma is_double_bound: "is_double x \<Longrightarrow> 0 \<le> x \<Longrightarrow> x < overflow_bound"
proof (cases "x = 0")
  case True
  then show ?thesis by (simp add: overflow_bound_def)
next
  case False
  assume "is_double x" "0 \<le> x"
  with False have "overflow (round_pos x) = Fin x" by (simp add: is_double_def to_double_def)
  then show ?thesis by (simp add: overflow_Fin)
qed

lemma to_double_not_NaN [simp]: "to_double x \<noteq> NaN"
proof -
  have "overflow r \<noteq> NaN" for r by (simp add: overflow_def)
  moreover have "js_neg (overflow r) \<noteq> NaN" for r by (simp add: overflow_def)
  ultimately show ?thesis by (simp add: to_double_def)
qed

lemma js_le_Fin0_cases: "js_le (Fin 0) a \<Longrightarrow> (\<exists>u. a = Fin u \<and> 0 \<le> u) \<or> a = PosInf"
  by (cases a) simp_all

lemma js_le_PosInf: "a \<noteq> NaN \<Longrightarrow> js_le a PosInf"
  by (cases a) simp_all

lemma js_le_refl: "a \<noteq> NaN \<Longrightarrow> js_le a a"
  by (cases a) simp_all

lemma div_million:
  assumes "is_double x" "0 \<le> x"
  shows "\<exists>u. js_div (Fin x) (lit 1000000) = Fin u \<and> 0 \<le> u \<and> to_double (x / 1000000) = Fin u"
proof (cases "x = 0")
  case True
  then show ?thesis by (simp add: lit_million to_double_def)
next
  case False
  with assms have pos: "0 < x / 1000000" by simp
  have "x < 2 powi 1024" using is_double_bound[OF assms] by (simp add: overflow_bound_pow2)
  then have "x / 1000000 \<le> 2 powi 1024 / 1000000" by (simp add: divide_right_mono)
  also have "\<dots> \<le> 2 powi 1023" by simp
  finally have "round_pos (x / 1000000) \<le> 2 powi 1023"
    using pos by (intro round_pos_le_pow2) simp_all
  also have "\<dots> < overflow_bound" by (simp add: overflow_bound_pow2)
  finally have "overflow (round_pos (x / 1000000)) = Fin (round_pos (x / 1000000))"
    by (simp add: overflow_def)
  then have "to_double (x / 1000000) = Fin (round_pos (x / 1000000))"
    using pos by (simp add: to_double_def)
  moreover have "0 \<le> round_pos (x / 1000000)" using pos by (rule round_pos_nonneg)
  ultimately show ?thesis by (simp add: lit_million)
qed

lemma js_add_mono_left:
  assumes "js_le (Fin 0) s" "js_le (Fin 0) t" "js_le s s'"
  shows "js_le (js_add s t) (js_add s' t)"
proof -
  have s': "js_le (Fin 0) s'" using assms(1,3) by (rule js_le_trans)
  from js_le_Fin0_cases[OF assms(1)] js_le_Fin0_cases[OF assms(2)] js_le_Fin0_cases[OF s'] assms(3)
  show ?thesis
    by (auto simp: to_double_mono js_le_PosInf)
qed

lemma js_add_mono_right:
  assumes "js_le (Fin 0) s" "js_le (Fin 0) t" "js_le t t'"
  shows "js_le (js_add s t) (js_add s t')"
proof -
  have t': "js_le (Fin 0) t'" using assms(2,3) by (rule js_le_trans)
  from js_le_Fin0_cases[OF assms(1)] js_le_Fin0_cases[OF assms(2)] js_le_Fin0_cases[OF t'] assms(3)
  show ?thesis
    by (auto simp: to_double_mono js_le_PosInf)
qed

lemma js_add_nonneg:
  assumes "js_le (Fin 0) s" "js_le (Fin 0) t"
  shows "js_le (Fin 0) (js_add s t)"
  using js_le_Fin0_cases[OF assms(1)] js_le_Fin0_cases[OF assms(2)]
  by (auto simp: to_double_nonneg)

lemma cost_term_nonneg:
  assumes "finite_nonneg p" "finite_nonneg a"
  shows "js_le (Fin 0) (js_mul (js_div p (lit 1000000)) a)"
proof -
  obtain x where x: "p = Fin x" "is_double x" "0 \<le> x" using assms(1) by (cases p) auto
  obtain y where y: "a = Fin y" "0 \<le> y" using assms(2) by (cases a) auto
  obtain u where u: "js_div (Fin x) (lit 1000000) = Fin u" "0 \<le> u"
    using div_million[OF x(2,3)] by blast
  show ?thesis using u y by (simp add: x(1) to_double_nonneg)
qed

lemma cost_term_mono:
  assumes "finite_nonneg p" "finite_nonneg p'" "js_le p p'" "finite_nonneg a"
  shows "js_le (js_mul (js_div p (lit 1000000)) a) (js_mul (js_div p' (lit 1000000)) a)"
proof -
  obtain x where x: "p = Fin x" "is_double x" "0 \<le> x" using assms(1) by (cases p) auto
  obtain x' where x': "p' = Fin x'" "is_double x'" "0 \<le> x'" using assms(2) by (cases p') auto
  obtain y where y: "a = Fin y" "0 \<le> y" using assms(4) by (cases a) auto
  have le: "x \<le> x'" using assms(3) by (simp add: x(1) x'(1))
  obtain u where u: "js_div (Fin x) (lit 1000000) = Fin u" "0 \<le> u" "to_double (x / 1000000) = Fin u"
    using div_million[OF x(2,3)] by blast
  obtain u' where u': "js_div (Fin x') (lit 1000000) = Fin u'" "0 \<le> u'" "to_double (x' / 1000000) = Fin u'"
    using div_million[OF x'(2,3)] by blast
  have "js_le (to_double (x / 1000000)) (to_double (x' / 1000000))"
    using le by (intro to_double_mono) (simp add: divide_right_mono)
  then have "u \<le> u'" by (simp add: u(3) u'(3))
  then have "u * y \<le> u' * y" using y(2) by (rule mult_right_mono)
  then have "js_le (to_double (u * y)) (to_double (u' * y))" by (rule to_double_mono)
  then show ?thesis by (simp add: x(1) x'(1) y(1) u(1) u'(1))
qed

subsection \<open>Every finite result is a double\<close>

lemma rhe_error: "\<bar>of_int (round_half_even q) - q\<bar> \<le> 1 / 2"
proof -
  have "of_int \<lfloor>q\<rfloor> \<le> q" "q < of_int \<lfloor>q\<rfloor> + 1" by linarith+
  then show ?thesis unfolding round_half_even_def Let_def
    by (simp add: abs_if split: if_splits) linarith
qed

lemma round_pos_error: "\<bar>round_pos x - x\<bar> \<le> 2 powi ulp_exp x / 2"
proof -
  define u where "u = (2::rat) powi ulp_exp x"
  have u: "0 < u" by (simp add: u_def pow2_pos)
  have "round_pos x - x = (of_int (round_half_even (x / u)) - x / u) * u"
    using u by (simp add: round_pos_def u_def[symmetric] left_diff_distrib)
  then have "\<bar>round_pos x - x\<bar> = \<bar>of_int (round_half_even (x / u)) - x / u\<bar> * u"
    using u by (simp add: abs_mult)
  also have "\<dots> \<le> 1 / 2 * u" using rhe_error [of "x / u"] u by (intro mult_right_mono) simp_all
  finally show ?thesis by (simp add: u_def)
qed

lemma round_pos_significand:
  assumes "0 < x"
  shows "0 \<le> round_half_even (x / 2 powi ulp_exp x)"
    and "round_half_even (x / 2 powi ulp_exp x) \<le> 2 ^ 53"
proof -
  have "0 \<le> x / 2 powi ulp_exp x" using assms by (simp add: pow2_pos less_imp_le)
  then show "0 \<le> round_half_even (x / 2 powi ulp_exp x)" using rhe_ge_int [of 0] by simp
  have "x < 2 powi (ilog2 x + 1)" using assms by (rule ilog2_bounds)
  also have "\<dots> \<le> 2 powi (ulp_exp x + 53)" by (intro pow2_mono) (simp add: ulp_exp_def)
  also have "\<dots> = 2 ^ 53 * 2 powi ulp_exp x" by (simp add: power_int_add)
  finally have "x / 2 powi ulp_exp x \<le> of_int (2 ^ 53)"
    by (simp add: pos_divide_le_eq pow2_pos)
  then show "round_half_even (x / 2 powi ulp_exp x) \<le> 2 ^ 53" by (rule rhe_le_int)
qed

lemma round_pos_representable:
  assumes "0 < m" "m \<le> 2 ^ 53" "- 1074 \<le> e"
  shows "round_pos (of_int m * 2 powi e) = of_int m * 2 powi e"
proof -
  define y where "y = (of_int m :: rat) * 2 powi e"
  have ypos: "0 < y" using assms(1) by (simp add: y_def pow2_pos)
  have "ulp_exp y \<le> e \<or> (m = 2 ^ 53 \<and> ulp_exp y = e + 1)"
  proof (cases "m = 2 ^ 53")
    case True
    then have y: "y = 2 powi (e + 53)" by (simp add: y_def power_int_add)
    have "e + 53 \<le> ilog2 y" using ypos by (intro ilog2_ge) (simp_all add: y)
    moreover have "ilog2 y < e + 54" using ypos by (intro ilog2_less) (simp_all add: y pow2_less_iff)
    ultimately show ?thesis using True assms(3) by (simp add: ulp_exp_def)
  next
    case False
    with assms(2) have "m < 2 ^ 53" by simp
    then have "(of_int m :: rat) < of_int (2 ^ 53)" by (simp only: of_int_less_iff)
    then have "y < 2 ^ 53 * 2 powi e" by (simp add: y_def pow2_pos)
    also have "\<dots> = 2 powi (e + 53)" by (simp add: power_int_add)
    finally have "ilog2 y < e + 53" using ypos by (intro ilog2_less)
    then show ?thesis using assms(3) by (simp add: ulp_exp_def)
  qed
  then have "\<exists>n. y = of_int n * 2 powi ulp_exp y"
  proof
    assume le: "ulp_exp y \<le> e"
    have "y = of_int (m * 2 ^ nat (e - ulp_exp y)) * 2 powi ulp_exp y"
      using pow2_split [OF le] by (simp add: y_def)
    then show ?thesis by blast
  next
    assume h: "m = 2 ^ 53 \<and> ulp_exp y = e + 1"
    have "(2::rat) ^ 53 * 2 powi e = of_int (2 ^ 52) * 2 powi (e + 1)"
      by (simp add: power_int_add)
    moreover have "y = 2 ^ 53 * 2 powi e" using h unfolding y_def by simp
    ultimately have "y = of_int (2 ^ 52) * 2 powi ulp_exp y" using h by (simp only:)
    then show ?thesis by blast
  qed
  then obtain n where n: "y = of_int n * 2 powi ulp_exp y" by blast
  have "y / 2 powi ulp_exp y = of_int n"
    using pow2_pos [of "ulp_exp y"] by (subst n) simp
  then have "round_pos y = of_int n * 2 powi ulp_exp y" by (simp add: round_pos_def)
  then show ?thesis using n by (simp add: y_def)
qed

lemma round_pos_idem: "0 < x \<Longrightarrow> round_pos (round_pos x) = round_pos x"
proof -
  assume x: "0 < x"
  define m where "m = round_half_even (x / 2 powi ulp_exp x)"
  have m: "0 \<le> m" "m \<le> 2 ^ 53" using round_pos_significand [OF x] by (simp_all add: m_def)
  have r: "round_pos x = of_int m * 2 powi ulp_exp x" by (simp add: round_pos_def m_def)
  show ?thesis
  proof (cases "m = 0")
    case True
    then have "round_pos x = 0" by (simp add: r)
    moreover have "round_pos 0 = 0" by (simp add: round_pos_def round_half_even_def)
    ultimately show ?thesis by simp
  next
    case False
    then have "0 < m" using m(1) by simp
    then show ?thesis unfolding r using m(2)
      by (intro round_pos_representable) (simp_all add: ulp_exp_def)
  qed
qed

text \<open>Every finite result of an operation is a double.\<close>

lemma to_double_is_double: "to_double x = Fin y \<Longrightarrow> is_double y"
proof -
  assume a: "to_double x = Fin y"
  have zero: "is_double 0" by (simp add: is_double_def to_double_def)
  consider "x = 0" | "0 < x" | "x < 0" by linarith
  then show ?thesis
  proof cases
    case 1
    then show ?thesis using a zero by (simp add: to_double_def)
  next
    case 2
    then have "overflow (round_pos x) = Fin y" using a by (simp add: to_double_def)
    then have y: "round_pos x = y" "y < overflow_bound" using overflow_Fin by auto
    have "0 \<le> y" using round_pos_nonneg [OF 2] by (simp add: y(1))
    show ?thesis
    proof (cases "y = 0")
      case True
      then show ?thesis using zero by simp
    next
      case False
      with \<open>0 \<le> y\<close> have pos: "0 < y" by simp
      have "round_pos y = y" using round_pos_idem [OF 2] by (simp add: y(1))
      then have "overflow (round_pos y) = Fin y" using y(2) by (simp add: overflow_def)
      then show ?thesis using pos by (simp add: is_double_def to_double_def)
    qed
  next
    case 3
    then have x: "0 < - x" by simp
    define z where "z = - y"
    have "js_neg (overflow (round_pos (- x))) = Fin y" using a 3 by (simp add: to_double_def)
    then have "overflow (round_pos (- x)) = Fin z"
      by (cases "overflow (round_pos (- x))") (simp_all add: z_def)
    then have z: "round_pos (- x) = z" "z < overflow_bound" using overflow_Fin by auto
    have "0 \<le> z" using round_pos_nonneg [OF x] by (simp add: z(1))
    show ?thesis
    proof (cases "z = 0")
      case True
      then show ?thesis using zero by (simp add: z_def)
    next
      case False
      with \<open>0 \<le> z\<close> have pos: "0 < z" by simp
      have "round_pos z = z" using round_pos_idem [OF x] by (simp add: z(1))
      then have "overflow (round_pos z) = Fin z" using z(2) by (simp add: overflow_def)
      then have "js_neg (overflow (round_pos (- y))) = Fin y" by (simp add: z_def)
      then show ?thesis using pos by (simp add: is_double_def to_double_def z_def)
    qed
  qed
qed

subsection \<open>The shape of a fixed-point rendering\<close>

declare dec_digits.simps [simp del]

lemma is_digit_digit_char: "0 \<le> d \<Longrightarrow> d < 10 \<Longrightarrow> is_digit (digit_char d)"
proof -
  assume "0 \<le> d" "d < 10"
  then have "nat d < length ''0123456789''" by simp
  then have "''0123456789'' ! nat d \<in> set ''0123456789''" by (rule nth_mem)
  then show ?thesis by (simp only: is_digit_def digit_char_def)
qed

lemma dec_digits_digits: "0 \<le> n \<Longrightarrow> list_all is_digit (dec_digits n)"
proof (induction n rule: dec_digits.induct)
  case (1 n)
  show ?case
  proof (cases "n < 10")
    case True
    then show ?thesis using "1.prems" by (simp add: dec_digits.simps[of n] is_digit_digit_char)
  next
    case False
    then have "list_all is_digit (dec_digits (n div 10))" using "1.IH" "1.prems" by simp
    moreover have "is_digit (digit_char (n mod 10))" by (rule is_digit_digit_char) simp_all
    ultimately show ?thesis using False by (simp add: dec_digits.simps[of n])
  qed
qed

lemma dec_digits_nonempty: "dec_digits n \<noteq> []"
  by (simp add: dec_digits.simps[of n])

lemma fixed_digits_shape:
  assumes "0 \<le> n" "0 < f"
  shows "\<exists>a b. fixed_digits n f = a @ ''.'' @ b \<and> a \<noteq> [] \<and> list_all is_digit a
           \<and> list_all is_digit b \<and> length b = f"
proof -
  define m where "m = dec_digits n"
  define m' where "m' = (if length m \<le> f then replicate (f + 1 - length m) (CHR ''0'') @ m else m)"
  have m: "list_all is_digit m" "m \<noteq> []"
    using assms(1) by (simp_all add: m_def dec_digits_digits dec_digits_nonempty)
  have zero: "is_digit (CHR ''0'')" by (simp add: is_digit_def)
  have m'd: "list_all is_digit m'"
    using m(1) zero by (simp add: m'_def list_all_iff)
  have len: "f < length m'" by (simp add: m'_def)
  have eq: "fixed_digits n f = take (length m' - f) m' @ ''.'' @ drop (length m' - f) m'"
    using assms(2) by (simp add: fixed_digits_def Let_def m_def m'_def)
  have a: "take (length m' - f) m' \<noteq> []" using len by (cases m') auto
  have "list_all is_digit (take (length m' - f) m')" "list_all is_digit (drop (length m' - f) m')"
    using m'd by (auto simp: list_all_iff dest: in_set_takeD in_set_dropD)
  moreover have "length (drop (length m' - f) m') = f" using len by simp
  ultimately show ?thesis using eq a by blast
qed

lemma not_digit_point: "\<not> is_digit (CHR ''.'')" "\<not> is_digit (CHR ''-'')"
  by (simp_all add: is_digit_def)

lemma fraction_digits_plain:
  assumes "a \<noteq> []" "list_all is_digit a" "list_all is_digit b" "b \<noteq> []"
  shows "fraction_digits (a @ ''.'' @ b) = Some (length b)"
proof -
  obtain c u where a: "a = c # u" using assms(1) by (cases a) auto
  have c: "c \<noteq> CHR ''-''" using assms(2) not_digit_point(2) by (auto simp: a)
  have all: "\<forall>x\<in>set a. is_digit x" using assms(2) by (simp add: list_all_iff)
  have tw: "takeWhile is_digit (a @ ''.'' @ b) = a"
    using all not_digit_point(1) by (simp add: takeWhile_append2)
  have dw: "dropWhile is_digit (a @ ''.'' @ b) = ''.'' @ b"
    using all not_digit_point(1) by (simp add: dropWhile_append2)
  have t: "(case a @ ''.'' @ b of c # u \<Rightarrow> if c = CHR ''-'' then u else a @ ''.'' @ b | [] \<Rightarrow> a @ ''.'' @ b)
           = a @ ''.'' @ b"
    using c by (simp add: a)
  show ?thesis
    unfolding fraction_digits_def t Let_def tw dw using assms by simp
qed

lemma fraction_digits_minus:
  assumes "a \<noteq> []" "list_all is_digit a" "list_all is_digit b" "b \<noteq> []"
  shows "fraction_digits (''-'' @ a @ ''.'' @ b) = Some (length b)"
proof -
  have all: "\<forall>x\<in>set a. is_digit x" using assms(2) by (simp add: list_all_iff)
  have tw: "takeWhile is_digit (a @ ''.'' @ b) = a"
    using all not_digit_point(1) by (simp add: takeWhile_append2)
  have dw: "dropWhile is_digit (a @ ''.'' @ b) = ''.'' @ b"
    using all not_digit_point(1) by (simp add: dropWhile_append2)
  have t: "(case ''-'' @ a @ ''.'' @ b of c # u \<Rightarrow> if c = CHR ''-'' then u else ''-'' @ a @ ''.'' @ b
             | [] \<Rightarrow> ''-'' @ a @ ''.'' @ b) = a @ ''.'' @ b"
    by simp
  show ?thesis
    unfolding fraction_digits_def t Let_def tw dw using assms by simp
qed

lemma toFixed_fraction_digits:
  assumes "\<bar>r\<bar> < 10 ^ 21" "0 < f" "f \<le> 100"
  shows "\<exists>s. toFixed (Fin r) f = Inr s \<and> fraction_digits s = Some f
           \<and> (r < 0 \<longrightarrow> take 1 s = ''-'') \<and> (0 \<le> r \<longrightarrow> take 1 s \<noteq> ''-'')"
proof -
  define n where "n = \<lfloor>\<bar>r\<bar> * 10 ^ f + 1 / 2\<rfloor>"
  have n: "0 \<le> n" by (simp add: n_def)
  obtain a b where ab: "fixed_digits n f = a @ ''.'' @ b" "a \<noteq> []" "list_all is_digit a"
      "list_all is_digit b" "length b = f"
    using fixed_digits_shape[OF n assms(2)] by blast
  have b: "b \<noteq> []" using ab(5) assms(2) by auto
  have eq: "toFixed (Fin r) f = Inr ((if r < 0 then ''-'' else []) @ a @ ''.'' @ b)"
    using assms by (simp add: toFixed_def n_def[symmetric] ab(1))
  have hd: "take 1 a \<noteq> ''-''" using ab(2,3) not_digit_point(2) by (cases a) auto
  show ?thesis
  proof (cases "r < 0")
    case True
    then show ?thesis using eq fraction_digits_minus[OF ab(2,3,4) b] ab(5) by simp
  next
    case False
    then show ?thesis using eq fraction_digits_plain[OF ab(2,3,4) b] ab(5) hd ab(2)
      by (cases a) auto
  qed
qed

subsection \<open>Evaluated literals and renderings\<close>

lemma lit_thresholds:
  "lit (1 / 1000) = Fin (1152921504606847 / 1152921504606846976)"
  "lit (1 / 100) = Fin (5764607523034235 / 576460752303423488)"
  "lit 1 = Fin 1"
  "lit 0 = Fin 0"
  by code_simp+

lemma gpt4o_prices:
  "inputCostPer1MTokens (hd MODELS) = lit (5 / 2)"
  "outputCostPer1MTokens (hd MODELS) = lit 10"
  by (simp_all add: MODELS_def)

lemma gpt4o_example:
  "calculateCost (hd MODELS) (lit 1000000) (lit 500000) = Fin (15 / 2)"
  by code_simp

lemma lit_seven_and_a_half: "lit (15 / 2) = Fin (15 / 2)"
  by code_simp

lemma gpt4o_negative:
  "calculateCost (hd MODELS) (lit (- 1000000)) (lit 0) = Fin (- (5 / 2))"
  by code_simp

lemma formatCost_vectors:
  "formatCost (lit 0) = Inr ''$0.000000''"
  "formatCost (lit (1 / 1000)) = Inr ''$0.00100''"
  "formatCost (lit (1 / 100)) = Inr ''$0.0100''"
  "formatCost (lit 1) = Inr ''$1.00''"
  "formatCost (lit (4 / 10000000)) = Inr ''$0.000000''"
  "formatCost (lit (9999 / 10000000)) = Inr ''$0.001000''"
  "formatCost (lit (99999 / 10000000)) = Inr ''$0.01000''"
  "formatCost (lit (999999 / 1000000)) = Inr ''$1.0000''"
  "formatCost (lit (155 / 10)) = Inr ''$15.50''"
  "formatCost (lit (- 1 / 10)) = Inr ''$-0.100000''"
  by code_simp+

lemma formatCost_large:
  "formatCost (lit (10 ^ 21)) = Inr ''$1e+21''"
  "formatCost (lit (- (10 ^ 21))) = Inr ''$-1e+21''"
  by code_simp+

lemma lit_large:
  "lit (10 ^ 21) = Fin (10 ^ 21)"
  "lit (- (10 ^ 21)) = Fin (- (10 ^ 21))"
  by code_simp+

lemma cfd_strings:
  "cost_fraction_digits (Inr ''$0.000000'') = Some 6"
  "cost_fraction_digits (Inr ''$0.001000'') = Some 6"
  "cost_fraction_digits (Inr ''$0.00100'') = Some 5"
  "cost_fraction_digits (Inr ''$0.01000'') = Some 5"
  "cost_fraction_digits (Inr ''$0.0100'') = Some 4"
  "cost_fraction_digits (Inr ''$1.0000'') = Some 4"
  "cost_fraction_digits (Inr ''$1.00'') = Some 2"
  "cost_fraction_digits (Inr ''$15.50'') = Some 2"
  "cost_fraction_digits (Inr ''$-0.100000'') = Some 6"
  "cost_fraction_digits (Inr ''$1e+21'') = None"
  "cost_fraction_digits (Inr ''$-1e+21'') = None"
  by code_simp+

lemma lit_prices: "lit (5 / 2) = Fin (5 / 2)" "lit 10 = Fin 10"
  by code_simp+

lemma formatCost_not_finite:
  "formatCost NaN = Inr ''$NaN''"
  "formatCost PosInf = Inr ''$Infinity''"
  "formatCost NegInf = Inr ''$-Infinity''"
  by (simp_all add: formatCost_def lit_thresholds toFixed_def dollar_def)

subsection \<open>\<open>formatCost\<close> on finite numbers\<close>

lemma formatCost_Fin:
  "formatCost (Fin r) =
     (if r < 1152921504606847 / 1152921504606846976 then dollar (toFixed (Fin r) 6)
      else if r < 5764607523034235 / 576460752303423488 then dollar (toFixed (Fin r) 5)
      else if r < 1 then dollar (toFixed (Fin r) 4)
      else dollar (toFixed (Fin r) 2))"
  by (simp add: formatCost_def lit_thresholds)

lemma cfd_dollar:
  "toFixed x f = Inr s \<Longrightarrow> cost_fraction_digits (dollar (toFixed x f)) = fraction_digits s"
  by (simp add: dollar_def cost_fraction_digits_def)

lemma cfd_toFixed:
  assumes "\<bar>r\<bar> < 10 ^ 21" "0 < f" "f \<le> 100"
  shows "cost_fraction_digits (dollar (toFixed (Fin r) f)) = Some f"
proof -
  obtain s where "toFixed (Fin r) f = Inr s" "fraction_digits s = Some f"
    using toFixed_fraction_digits [OF assms] by blast
  then show ?thesis using cfd_dollar [of "Fin r" f s] by simp
qed

lemma fraction_digits_by_tier:
  assumes "\<bar>r\<bar> < 10 ^ 21"
  shows "cost_fraction_digits (formatCost (Fin r)) =
     Some (if r < 1152921504606847 / 1152921504606846976 then 6
           else if r < 5764607523034235 / 576460752303423488 then 5
           else if r < 1 then 4 else 2)"
  by (simp add: formatCost_Fin cfd_toFixed [OF assms])

lemma formatCost_total: "\<exists>s. formatCost x = Inr s"
  by (simp add: formatCost_def toFixed_def dollar_def)

subsection \<open>Looking up the catalog\<close>

lemma MODELS_ids:
  "map id_str MODELS =
     [''openai/gpt-4o'', ''openai/gpt-4o-mini'', ''openai/gpt-5-mini'',
      ''anthropic/claude-sonnet-4-5-20250929'', ''google/gemini-2.0-flash'',
      ''google/gemini-2.5-pro'']"
  by (simp add: MODELS_def)

lemma MODELS_distinct: "distinct (map id_str MODELS)"
  by (simp add: MODELS_ids)

lemma find_in_distinct:
  "distinct (map f xs) \<Longrightarrow> m \<in> set xs \<Longrightarrow> List.find (\<lambda>x. f x = f m) xs = Some m"
proof (induction xs)
  case Nil
  then show ?case by simp
next
  case (Cons x xs)
  then show ?case by (cases "x = m") (auto simp: image_iff)
qed

lemma find_absent: "k \<notin> set (map f xs) \<Longrightarrow> List.find (\<lambda>x. f x = k) xs = None"
  by (induction xs) auto

subsection \<open>Steps of the rate limiter\<close>

lemma getRatelimit_unconfigured:
  "ratelimit_var w = None \<Longrightarrow> \<not> configured e \<Longrightarrow> getRatelimit accepts e w = (Inr None, w)"
  by (auto simp: getRatelimit_def configured_def)

lemma checkRateLimit_unconfigured:
  "ratelimit_var w = None \<Longrightarrow> \<not> configured e \<Longrightarrow>
     checkRateLimit accepts e now identifier w =
       (Inr \<lparr>success = True, limit = 0, remaining = 0, reset = 0\<rparr>, w)"
  by (simp add: checkRateLimit_def getRatelimit_unconfigured)

lemma checkRateLimit_rejected:
  "ratelimit_var w = None \<Longrightarrow> configured e
     \<Longrightarrow> \<not> accepts (the (UPSTASH_REDIS_REST_URL e)) (the (UPSTASH_REDIS_REST_TOKEN e))
     \<Longrightarrow> checkRateLimit accepts e now identifier w = (Inl UrlError, w)"
  by (simp add: checkRateLimit_def getRatelimit_def configured_def)

lemma run_unconfigured:
  assumes "ratelimit_var w = None" "\<forall>(e, now, identifier) \<in> set calls. \<not> configured e"
  shows "run accepts calls w =
     (replicate (length calls) (Inr \<lparr>success = True, limit = 0, remaining = 0, reset = 0\<rparr>), w)"
  using assms
proof (induction calls)
  case Nil
  then show ?case by simp
next
  case (Cons call calls)
  obtain e now ident where call: "call = (e, now, ident)" by (cases call)
  have "\<not> configured e" using Cons.prems(2) by (simp add: call)
  then have "checkRateLimit accepts e now ident w =
      (Inr \<lparr>success = True, limit = 0, remaining = 0, reset = 0\<rparr>, w)"
    using Cons.prems(1) by (rule checkRateLimit_unconfigured [rotated])
  moreover have "run accepts calls w =
      (replicate (length calls) (Inr \<lparr>success = True, limit = 0, remaining = 0, reset = 0\<rparr>), w)"
    using Cons.prems by (intro Cons.IH) simp_all
  ultimately show ?case by (simp add: call)
qed

lemma run_append:
  "run accepts (xs @ ys) w =
     (fst (run accepts xs w) @ fst (run accepts ys (snd (run accepts xs w))),
      snd (run accepts ys (snd (run accepts xs w))))"
  by (induction xs arbitrary: w) (auto split: prod.splits)

lemma getRatelimit_cached:
  "ratelimit_var w = Some h \<Longrightarrow> getRatelimit accepts e w = (Inr (Some h), w)"
  by (simp add: getRatelimit_def)

lemma getRatelimit_caches:
  "fst (getRatelimit accepts e w) = Inr (Some h)
     \<Longrightarrow> ratelimit_var (snd (getRatelimit accepts e w)) = Some h"
  by (auto simp: getRatelimit_def Let_def split: option.splits if_splits)

lemma getRatelimit_no_handle:
  "obtained (fst (getRatelimit accepts e w)) = None
     \<Longrightarrow> snd (getRatelimit accepts e w) = w \<and> fst (getRatelimit accepts e w) \<noteq> Inr (Some h)"
  by (auto simp: getRatelimit_def Let_def split: option.splits if_splits)

lemma getRatelimit_constructed:
  "ratelimit_var w = None \<Longrightarrow> fst (getRatelimit accepts e w) = Inr (Some h) \<Longrightarrow>
     constructed (snd (getRatelimit accepts e w)) = constructed w + 1"
  by (auto simp: getRatelimit_def Let_def split: if_splits)

lemma checkRateLimit_world:
  "ratelimit_var (snd (checkRateLimit accepts e now i w))
     = ratelimit_var (snd (getRatelimit accepts e w))
   \<and> constructed (snd (checkRateLimit accepts e now i w))
     = constructed (snd (getRatelimit accepts e w))"
  by (cases "getRatelimit accepts e w")
    (auto simp: checkRateLimit_def split: option.splits prod.splits sum.splits)

lemma checkRateLimit_no_handle:
  "obtained (fst (getRatelimit accepts e w)) = None \<Longrightarrow> snd (checkRateLimit accepts e now i w) = w"
  using getRatelimit_no_handle [of accepts e w]
  by (cases "getRatelimit accepts e w")
    (auto simp: checkRateLimit_def split: option.splits prod.splits sum.splits)

lemma run_cached:
  "ratelimit_var w = Some h \<Longrightarrow>
     handles accepts calls w = replicate (length calls) (Some h)
     \<and> ratelimit_var (snd (run accepts calls w)) = Some h
     \<and> constructed (snd (run accepts calls w)) = constructed w"
proof (induction calls arbitrary: w)
  case Nil
  then show ?case by simp
next
  case (Cons call calls)
  obtain e now i where call: "call = (e, now, i)" by (cases call)
  define w' where "w' = snd (checkRateLimit accepts e now i w)"
  have g: "getRatelimit accepts e w = (Inr (Some h), w)"
    using Cons.prems by (rule getRatelimit_cached)
  have w': "ratelimit_var w' = Some h" "constructed w' = constructed w"
    using checkRateLimit_world [of accepts e now i w] Cons.prems by (simp_all add: w'_def g)
  have r: "run accepts (call # calls) w =
      (fst (checkRateLimit accepts e now i w) # fst (run accepts calls w'), snd (run accepts calls w'))"
    by (simp add: call w'_def split: prod.splits)
  show ?case using Cons.IH [OF w'(1)] w'(2) by (simp add: r) (simp add: call g w'_def)
qed

lemma handles_agree:
  "Some h1 \<in> set (handles accepts calls w) \<Longrightarrow> Some h2 \<in> set (handles accepts calls w)
     \<Longrightarrow> h1 = h2"
proof (induction calls arbitrary: w)
  case Nil
  then show ?case by simp
next
  case (Cons call calls)
  obtain e now i where call: "call = (e, now, i)" by (cases call)
  define w' where "w' = snd (checkRateLimit accepts e now i w)"
  show ?case
  proof (cases "obtained (fst (getRatelimit accepts e w))")
    case None
    then have "w' = w" unfolding w'_def by (rule checkRateLimit_no_handle)
    then show ?thesis using None Cons.prems Cons.IH [of w] by (simp add: call w'_def)
  next
    case (Some h)
    then have f: "fst (getRatelimit accepts e w) = Inr (Some h)"
      by (cases "fst (getRatelimit accepts e w)") simp_all
    then have "ratelimit_var w' = Some h"
      using checkRateLimit_world [of accepts e now i w] getRatelimit_caches [of accepts e w h]
      by (simp add: w'_def)
    then have "handles accepts calls w' = replicate (length calls) (Some h)"
      using run_cached by blast
    then have "set (handles accepts (call # calls) w) \<subseteq> {Some h}"
      using Some by (auto simp: call w'_def)
    then show ?thesis using Cons.prems by auto
  qed
qed

lemma constructed_once:
  "ratelimit_var w = None \<Longrightarrow> constructed (snd (run accepts calls w)) \<le> constructed w + 1"
proof (induction calls arbitrary: w)
  case Nil
  then show ?case by simp
next
  case (Cons call calls)
  obtain e now i where call: "call = (e, now, i)" by (cases call)
  define w' where "w' = snd (checkRateLimit accepts e now i w)"
  have r: "snd (run accepts (call # calls) w) = snd (run accepts calls w')"
    by (simp add: call w'_def split: prod.splits)
  show ?case
  proof (cases "obtained (fst (getRatelimit accepts e w))")
    case None
    then have "w' = w" unfolding w'_def by (rule checkRateLimit_no_handle)
    then show ?thesis using Cons.IH [OF Cons.prems] by (simp add: r)
  next
    case (Some h)
    then have f: "fst (getRatelimit accepts e w) = Inr (Some h)"
      by (cases "fst (getRatelimit accepts e w)") simp_all
    then have "ratelimit_var w' = Some h" "constructed w' = constructed w + 1"
      using checkRateLimit_world [of accepts e now i w] getRatelimit_caches [of accepts e w h]
        getRatelimit_constructed [OF Cons.prems f] by (simp_all add: w'_def)
    then show ?thesis using run_cached [of w' h accepts calls] by (simp add: r)
  qed
qed

text \<open>One call with the limiter on: the store counts it, and the limiter stays on.\<close>

lemma checkRateLimit_on:
  assumes "limiter_on accepts w ((e, now, i) # calls)"
  shows "\<exists>w'. checkRateLimit accepts e now i w =
        (Inr \<lparr>success = counters w (i, now div 86400000) + 1 \<le> 5, limit = 5,
              remaining = 5 - (counters w (i, now div 86400000) + 1),
              reset = (now div 86400000 + 1) * 86400000\<rparr>, w')
     \<and> counters w' = (counters w)((i, now div 86400000) := counters w (i, now div 86400000) + 1)
     \<and> store_requests w' = store_requests w + 1
     \<and> ratelimit_var w' \<noteq> None
     \<and> (\<forall>later. limiter_on accepts w' later)"
proof (cases "ratelimit_var w")
  case None
  then show ?thesis using assms
    by (simp add: limiter_on_def checkRateLimit_def getRatelimit_def configured_def
        store_limit_def Let_def)
next
  case (Some rl)
  then show ?thesis using assms
    by (simp add: limiter_on_def checkRateLimit_def getRatelimit_def store_limit_def Let_def)
qed

lemma earlier_same_0: "earlier_same calls 0 = 0"
  by (simp add: earlier_same_def)

lemma earlier_same_Suc:
  "earlier_same ((e, now, i) # calls) (Suc k) =
     (if i = snd (snd (calls ! k)) \<and> now div 86400000 = fst (snd (calls ! k)) div 86400000
      then 1 else 0) + earlier_same calls k"
  by (simp add: earlier_same_def)

lemma run_on:
  assumes "limiter_on accepts w calls" "k < length calls"
  shows "fst (run accepts calls w) ! k =
     Inr \<lparr>success = counters w (snd (snd (calls ! k)), fst (snd (calls ! k)) div 86400000)
                       + earlier_same calls k + 1 \<le> 5,
          limit = 5,
          remaining = 5 - (counters w (snd (snd (calls ! k)), fst (snd (calls ! k)) div 86400000)
                       + earlier_same calls k + 1),
          reset = (fst (snd (calls ! k)) div 86400000 + 1) * 86400000\<rparr>"
  using assms
proof (induction calls arbitrary: w k)
  case Nil
  then show ?case by simp
next
  case (Cons call calls)
  obtain e now i where call: "call = (e, now, i)" by (cases call)
  obtain w' where step: "checkRateLimit accepts e now i w =
        (Inr \<lparr>success = counters w (i, now div 86400000) + 1 \<le> 5, limit = 5,
              remaining = 5 - (counters w (i, now div 86400000) + 1),
              reset = (now div 86400000 + 1) * 86400000\<rparr>, w')"
    and cs: "counters w' = (counters w)((i, now div 86400000) := counters w (i, now div 86400000) + 1)"
    and on: "limiter_on accepts w' calls"
    using checkRateLimit_on [of accepts w e now i calls] Cons.prems(1) by (auto simp: call)
  show ?case
  proof (cases k)
    case 0
    then show ?thesis by (simp add: call step earlier_same_0 split: prod.splits)
  next
    case (Suc j)
    then have j: "j < length calls" using Cons.prems(2) by simp
    have "fst (run accepts (call # calls) w) ! k = fst (run accepts calls w') ! j"
      by (simp add: call step Suc split: prod.splits)
    then show ?thesis
      using Cons.IH [OF on j]
      by (auto simp: call Suc cs earlier_same_Suc)
  qed
qed


section \<open>The claims\<close>

subsection \<open>The cost calculator\<close>

text \<open>
  C1. For every pricing entry and all token counts, \<open>calculateCost\<close> is the value of
  \<open>(p / 1_000_000) * input + (c / 1_000_000) * output\<close> in double arithmetic. Where no
  operation has to round, that is the value of the formula over the rationals; so it is
  for the entry priced 2.5 and 10.0 with 1,000,000 prompt and 500,000 completion tokens,
  where the result is the double 7.5.
\<close>

theorem calculateCost_formula:
  "calculateCost e p c =
     js_add (js_mul (js_div p (lit 1000000)) (inputCostPer1MTokens e))
            (js_mul (js_div c (lit 1000000)) (outputCostPer1MTokens e))
   \<and> (inputCostPer1MTokens e = Fin a \<and> outputCostPer1MTokens e = Fin b
        \<and> is_double (x / 1000000) \<and> is_double (x / 1000000 * a)
        \<and> is_double (y / 1000000) \<and> is_double (y / 1000000 * b)
        \<and> is_double (x / 1000000 * a + y / 1000000 * b)
      \<longrightarrow> calculateCost e (Fin x) (Fin y) = Fin (x / 1000000 * a + y / 1000000 * b))
   \<and> inputCostPer1MTokens (hd MODELS) = lit (5 / 2)
   \<and> outputCostPer1MTokens (hd MODELS) = lit 10
   \<and> calculateCost (hd MODELS) (lit 1000000) (lit 500000) = lit (15 / 2)
   \<and> lit (15 / 2) = Fin (15 / 2)"
proof (intro conjI impI)
  show "calculateCost e p c =
     js_add (js_mul (js_div p (lit 1000000)) (inputCostPer1MTokens e))
            (js_mul (js_div c (lit 1000000)) (outputCostPer1MTokens e))"
    by (simp add: calculateCost_def)
  show "inputCostPer1MTokens (hd MODELS) = lit (5 / 2)" by (rule gpt4o_prices)
  show "outputCostPer1MTokens (hd MODELS) = lit 10" by (rule gpt4o_prices)
  show "calculateCost (hd MODELS) (lit 1000000) (lit 500000) = lit (15 / 2)"
    by (simp only: gpt4o_example lit_seven_and_a_half)
  show "lit (15 / 2) = Fin (15 / 2)" by (rule lit_seven_and_a_half)
next
  assume "inputCostPer1MTokens e = Fin a \<and> outputCostPer1MTokens e = Fin b
        \<and> is_double (x / 1000000) \<and> is_double (x / 1000000 * a)
        \<and> is_double (y / 1000000) \<and> is_double (y / 1000000 * b)
        \<and> is_double (x / 1000000 * a + y / 1000000 * b)"
  then show "calculateCost e (Fin x) (Fin y) = Fin (x / 1000000 * a + y / 1000000 * b)"
    by (simp add: calculateCost_def lit_million is_double_def)
qed

theorem calculateCost_formula_witness:
  "inputCostPer1MTokens (hd MODELS) = Fin (5 / 2) \<and> outputCostPer1MTokens (hd MODELS) = Fin 10
   \<and> is_double (1000000 / 1000000) \<and> is_double (1000000 / 1000000 * (5 / 2))
   \<and> is_double (500000 / 1000000) \<and> is_double (500000 / 1000000 * 10)
   \<and> is_double (1000000 / 1000000 * (5 / 2) + 500000 / 1000000 * 10)
   \<and> calculateCost (hd MODELS) (Fin 1000000) (Fin 500000)
       = Fin (1000000 / 1000000 * (5 / 2) + 500000 / 1000000 * 10)"
proof -
  have d: "is_double 1" "is_double (5 / 2)" "is_double (1 / 2)" "is_double 5" "is_double (15 / 2)"
    by code_simp+
  have h: "inputCostPer1MTokens (hd MODELS) = Fin (5 / 2) \<and> outputCostPer1MTokens (hd MODELS) = Fin 10
        \<and> is_double (1000000 / 1000000) \<and> is_double (1000000 / 1000000 * (5 / 2))
        \<and> is_double (500000 / 1000000) \<and> is_double (500000 / 1000000 * 10)
        \<and> is_double (1000000 / 1000000 * (5 / 2) + 500000 / 1000000 * 10)"
    using d by (simp add: gpt4o_prices lit_prices)
  from calculateCost_formula [of "hd MODELS" NaN NaN "5 / 2" 10 1000000 500000] h
  show ?thesis by blast
qed

text \<open>
  C4. For a pricing entry with non-negative prices, \<open>calculateCost\<close> does not decrease
  when the prompt tokens or the completion tokens grow; prices and token counts are
  finite non-negative doubles.
\<close>

theorem calculateCost_monotone:
  assumes "finite_nonneg (inputCostPer1MTokens e)" "finite_nonneg (outputCostPer1MTokens e)"
    and "finite_nonneg p" "finite_nonneg p'" "finite_nonneg c" "finite_nonneg c'"
    and "js_le p p'" "js_le c c'"
  shows "js_le (calculateCost e p c) (calculateCost e p' c)
       \<and> js_le (calculateCost e p c) (calculateCost e p c')"
proof
  show "js_le (calculateCost e p c) (calculateCost e p' c)"
    unfolding calculateCost_def
    using assms by (intro js_add_mono_left cost_term_nonneg cost_term_mono)
  show "js_le (calculateCost e p c) (calculateCost e p c')"
    unfolding calculateCost_def
    using assms by (intro js_add_mono_right cost_term_nonneg cost_term_mono)
qed

theorem calculateCost_monotone_witness:
  "finite_nonneg (inputCostPer1MTokens (hd MODELS))
   \<and> finite_nonneg (outputCostPer1MTokens (hd MODELS))
   \<and> finite_nonneg (lit 1000) \<and> finite_nonneg (lit 2000)
   \<and> finite_nonneg (lit 500) \<and> finite_nonneg (lit 600)
   \<and> js_le (lit 1000) (lit 2000) \<and> js_le (lit 500) (lit 600)
   \<and> js_le (calculateCost (hd MODELS) (lit 1000) (lit 500))
            (calculateCost (hd MODELS) (lit 2000) (lit 500))
   \<and> js_le (calculateCost (hd MODELS) (lit 1000) (lit 500))
            (calculateCost (hd MODELS) (lit 1000) (lit 600))"
proof -
  have h: "finite_nonneg (inputCostPer1MTokens (hd MODELS))"
    "finite_nonneg (outputCostPer1MTokens (hd MODELS))"
    "finite_nonneg (lit 1000)" "finite_nonneg (lit 2000)"
    "finite_nonneg (lit 500)" "finite_nonneg (lit 600)"
    "js_le (lit 1000) (lit 2000)" "js_le (lit 500) (lit 600)"
    by code_simp+
  from calculateCost_monotone [OF h] h show ?thesis by blast
qed

text \<open>
  C5, the claim as stated fails: at \<open>-1,000,000\<close> prompt tokens the first catalog entry
  costs \<open>-2.5\<close>, a value below zero, returned without any rejection.
\<close>

theorem calculateCost_negative_tokens:
  "js_lt (lit (- 1000000)) (lit 0)
   \<and> calculateCost (hd MODELS) (lit (- 1000000)) (lit 0) = Fin (- (5 / 2))
   \<and> js_lt (calculateCost (hd MODELS) (lit (- 1000000)) (lit 0)) (lit 0)"
proof (intro conjI)
  show "calculateCost (hd MODELS) (lit (- 1000000)) (lit 0) = Fin (- (5 / 2))"
    by (rule gpt4o_negative)
  show "js_lt (lit (- 1000000)) (lit 0)" by code_simp
  show "js_lt (calculateCost (hd MODELS) (lit (- 1000000)) (lit 0)) (lit 0)"
    by (simp only: gpt4o_negative) (simp add: lit_thresholds)
qed

text \<open>
  C5, as the code has it. \<open>calculateCost\<close> has no rejection path and does not clamp:
  for a negative token count it returns the value of the formula, \<open>-2.5\<close> for the
  first catalog entry at \<open>-1,000,000\<close> prompt tokens. What holds is that finite
  non-negative token counts and prices never give a negative or a \<open>NaN\<close> cost.
\<close>

theorem calculateCost_nonneg:
  assumes "finite_nonneg (inputCostPer1MTokens e)" "finite_nonneg (outputCostPer1MTokens e)"
    and "finite_nonneg p" "finite_nonneg c"
  shows "js_le (lit 0) (calculateCost e p c)
       \<and> calculateCost e p c \<noteq> NaN
       \<and> calculateCost (hd MODELS) (lit (- 1000000)) (lit 0) = Fin (- (5 / 2))"
proof (intro conjI)
  have nn: "js_le (Fin 0) (calculateCost e p c)"
    unfolding calculateCost_def using assms by (intro js_add_nonneg cost_term_nonneg)
  then show "js_le (lit 0) (calculateCost e p c)" by (simp add: lit_thresholds)
  show "calculateCost e p c \<noteq> NaN" using nn by (cases "calculateCost e p c") simp_all
  show "calculateCost (hd MODELS) (lit (- 1000000)) (lit 0) = Fin (- (5 / 2))"
    by (rule gpt4o_negative)
qed

theorem calculateCost_nonneg_witness:
  "finite_nonneg (inputCostPer1MTokens (hd MODELS))
   \<and> finite_nonneg (outputCostPer1MTokens (hd MODELS))
   \<and> finite_nonneg (lit 1000000) \<and> finite_nonneg (lit 500000)
   \<and> js_le (lit 0) (calculateCost (hd MODELS) (lit 1000000) (lit 500000))
   \<and> calculateCost (hd MODELS) (lit 1000000) (lit 500000) \<noteq> NaN"
proof -
  have h: "finite_nonneg (inputCostPer1MTokens (hd MODELS))"
    "finite_nonneg (outputCostPer1MTokens (hd MODELS))"
    "finite_nonneg (lit 1000000)" "finite_nonneg (lit 500000)"
    by code_simp+
  note n = calculateCost_nonneg [OF h]
  show ?thesis by (intro conjI h n [THEN conjunct1] n [THEN conjunct2, THEN conjunct1])
qed

subsection \<open>Formatting\<close>

text \<open>
  C2, the claim as stated fails: \<open>10^21\<close> is a cost of at least 1, and \<open>formatCost\<close>
  renders it as \<open>"$1e+21"\<close>, with no fractional digits.
\<close>

theorem formatCost_large_cost:
  "js_le (lit 1) (lit (10 ^ 21))
   \<and> formatCost (lit (10 ^ 21)) = Inr ''$1e+21''
   \<and> cost_fraction_digits (formatCost (lit (10 ^ 21))) \<noteq> Some 2"
proof (intro conjI)
  show "js_le (lit 1) (lit (10 ^ 21))" by (simp only: lit_large lit_thresholds) simp
  show "formatCost (lit (10 ^ 21)) = Inr ''$1e+21''" by (rule formatCost_large)
  show "cost_fraction_digits (formatCost (lit (10 ^ 21))) \<noteq> Some 2"
    by (simp only: formatCost_large cfd_strings) simp
qed

text \<open>
  C2, as the code has it. For every finite cost of magnitude below \<open>10^21\<close>,
  \<open>formatCost\<close> gives a dollar sign and a decimal string with 6 fractional digits when
  \<open>cost < 0.001\<close>, 5 when \<open>0.001 \<le> cost < 0.01\<close>, 4 when \<open>0.01 \<le> cost < 1\<close> and 2 when
  \<open>cost \<ge> 1\<close>, the thresholds being the doubles the literals denote; a boundary value
  falls into the higher tier: \<open>formatCost(0) = "$0.000000"\<close>, \<open>formatCost(0.001)\<close> has
  5 fractional digits, \<open>formatCost(0.01)\<close> has 4, and \<open>formatCost(1.0) = "$1.00"\<close>.
  Outside that range the rendering is not a fixed-point decimal: \<open>formatCost(1e21)\<close> is
  \<open>"$1e+21"\<close>, and \<open>NaN\<close> and the infinities render as \<open>"$NaN"\<close>, \<open>"$Infinity"\<close> and
  \<open>"$-Infinity"\<close>.
\<close>

theorem formatCost_tiers:
  assumes "\<bar>r\<bar> < 10 ^ 21"
  shows "(js_lt (Fin r) (lit (1 / 1000)) \<longrightarrow> cost_fraction_digits (formatCost (Fin r)) = Some 6)
   \<and> (js_le (lit (1 / 1000)) (Fin r) \<and> js_lt (Fin r) (lit (1 / 100))
        \<longrightarrow> cost_fraction_digits (formatCost (Fin r)) = Some 5)
   \<and> (js_le (lit (1 / 100)) (Fin r) \<and> js_lt (Fin r) (lit 1)
        \<longrightarrow> cost_fraction_digits (formatCost (Fin r)) = Some 4)
   \<and> (js_le (lit 1) (Fin r) \<longrightarrow> cost_fraction_digits (formatCost (Fin r)) = Some 2)
   \<and> formatCost (lit 0) = Inr ''$0.000000''
   \<and> cost_fraction_digits (formatCost (lit (1 / 1000))) = Some 5
   \<and> cost_fraction_digits (formatCost (lit (1 / 100))) = Some 4
   \<and> formatCost (lit 1) = Inr ''$1.00''
   \<and> formatCost (lit (10 ^ 21)) = Inr ''$1e+21''
   \<and> formatCost NaN = Inr ''$NaN''
   \<and> formatCost PosInf = Inr ''$Infinity''
   \<and> formatCost NegInf = Inr ''$-Infinity''"
proof (intro conjI)
  note t = fraction_digits_by_tier [OF assms]
  show "js_lt (Fin r) (lit (1 / 1000)) \<longrightarrow> cost_fraction_digits (formatCost (Fin r)) = Some 6"
    using t by (simp add: lit_thresholds)
  show "js_le (lit (1 / 1000)) (Fin r) \<and> js_lt (Fin r) (lit (1 / 100))
        \<longrightarrow> cost_fraction_digits (formatCost (Fin r)) = Some 5"
    using t by (simp add: lit_thresholds)
  show "js_le (lit (1 / 100)) (Fin r) \<and> js_lt (Fin r) (lit 1)
        \<longrightarrow> cost_fraction_digits (formatCost (Fin r)) = Some 4"
    using t by (simp add: lit_thresholds)
  show "js_le (lit 1) (Fin r) \<longrightarrow> cost_fraction_digits (formatCost (Fin r)) = Some 2"
    using t by (simp add: lit_thresholds)
  show "formatCost (lit 0) = Inr ''$0.000000''" by (rule formatCost_vectors)
  show "cost_fraction_digits (formatCost (lit (1 / 1000))) = Some 5"
    by (simp only: formatCost_vectors cfd_strings)
  show "cost_fraction_digits (formatCost (lit (1 / 100))) = Some 4"
    by (simp only: formatCost_vectors cfd_strings)
  show "formatCost (lit 1) = Inr ''$1.00''" by (rule formatCost_vectors)
  show "formatCost (lit (10 ^ 21)) = Inr ''$1e+21''" by (rule formatCost_large)
  show "formatCost NaN = Inr ''$NaN''" by (rule formatCost_not_finite)
  show "formatCost PosInf = Inr ''$Infinity''" by (rule formatCost_not_finite)
  show "formatCost NegInf = Inr ''$-Infinity''" by (rule formatCost_not_finite)
qed

theorem formatCost_tiers_witness:
  "\<bar>1 / 2000 :: rat\<bar> < 10 ^ 21 \<and> js_lt (Fin (1 / 2000)) (lit (1 / 1000))
   \<and> cost_fraction_digits (formatCost (Fin (1 / 2000))) = Some 6
   \<and> \<bar>1 / 200 :: rat\<bar> < 10 ^ 21
   \<and> js_le (lit (1 / 1000)) (Fin (1 / 200)) \<and> js_lt (Fin (1 / 200)) (lit (1 / 100))
   \<and> cost_fraction_digits (formatCost (Fin (1 / 200))) = Some 5
   \<and> \<bar>1 / 2 :: rat\<bar> < 10 ^ 21
   \<and> js_le (lit (1 / 100)) (Fin (1 / 2)) \<and> js_lt (Fin (1 / 2)) (lit 1)
   \<and> cost_fraction_digits (formatCost (Fin (1 / 2))) = Some 4
   \<and> \<bar>31 / 2 :: rat\<bar> < 10 ^ 21 \<and> js_le (lit 1) (Fin (31 / 2))
   \<and> cost_fraction_digits (formatCost (Fin (31 / 2))) = Some 2"
proof -
  have h: "\<bar>1 / 2000 :: rat\<bar> < 10 ^ 21" "\<bar>1 / 200 :: rat\<bar> < 10 ^ 21"
    "\<bar>1 / 2 :: rat\<bar> < 10 ^ 21" "\<bar>31 / 2 :: rat\<bar> < 10 ^ 21"
    by simp_all
  have c: "js_lt (Fin (1 / 2000)) (lit (1 / 1000))"
    "js_le (lit (1 / 1000)) (Fin (1 / 200))" "js_lt (Fin (1 / 200)) (lit (1 / 100))"
    "js_le (lit (1 / 100)) (Fin (1 / 2))" "js_lt (Fin (1 / 2)) (lit 1)"
    "js_le (lit 1) (Fin (31 / 2))"
    by (simp_all add: lit_thresholds)
  have t1: "cost_fraction_digits (formatCost (Fin (1 / 2000))) = Some 6"
    by (rule formatCost_tiers [OF h(1), THEN conjunct1, THEN mp]) (rule c)
  have t2: "cost_fraction_digits (formatCost (Fin (1 / 200))) = Some 5"
    by (rule formatCost_tiers [OF h(2), THEN conjunct2, THEN conjunct1, THEN mp])
      (intro conjI c)
  have t3: "cost_fraction_digits (formatCost (Fin (1 / 2))) = Some 4"
    by (rule formatCost_tiers [OF h(3), THEN conjunct2, THEN conjunct2, THEN conjunct1, THEN mp])
      (intro conjI c)
  have t4: "cost_fraction_digits (formatCost (Fin (31 / 2))) = Some 2"
    by (rule formatCost_tiers [OF h(4), THEN conjunct2, THEN conjunct2, THEN conjunct2,
          THEN conjunct1, THEN mp])
      (rule c)
  show ?thesis by (intro conjI h c t1 t2 t3 t4)
qed

text \<open>
  C3, the claim as stated fails: \<open>formatCost(0.0009999)\<close> is \<open>"$0.001000"\<close>, which does
  not start with \<open>"$0.000999"\<close>.
\<close>

theorem formatCost_rounds_up:
  "formatCost (lit (9999 / 10000000)) = Inr ''$0.001000''
   \<and> \<not> (\<exists>s. formatCost (lit (9999 / 10000000)) = Inr s \<and> prefix ''$0.000999'' s)"
  by (simp add: formatCost_vectors)

text \<open>
  C3, as the code has it. \<open>toFixed\<close> rounds to the nearest value, it does not
  truncate: \<open>formatCost(0.0009999) = "$0.001000"\<close>, with 6 fractional digits. The other
  vectors hold as the spec gives them: \<open>formatCost(0.0000004) = "$0.000000"\<close>,
  \<open>formatCost(0.0099999)\<close> has 5 fractional digits, \<open>formatCost(0.999999)\<close> has 4, and
  \<open>formatCost(15.5) = "$15.50"\<close>.
\<close>

theorem formatCost_test_vectors:
  "formatCost (lit (4 / 10000000)) = Inr ''$0.000000''
   \<and> formatCost (lit (9999 / 10000000)) = Inr ''$0.001000''
   \<and> cost_fraction_digits (formatCost (lit (9999 / 10000000))) = Some 6
   \<and> formatCost (lit (99999 / 10000000)) = Inr ''$0.01000''
   \<and> cost_fraction_digits (formatCost (lit (99999 / 10000000))) = Some 5
   \<and> formatCost (lit (999999 / 1000000)) = Inr ''$1.0000''
   \<and> cost_fraction_digits (formatCost (lit (999999 / 1000000))) = Some 4
   \<and> formatCost (lit (155 / 10)) = Inr ''$15.50''"
  by (simp only: formatCost_vectors cfd_strings simp_thms)

text \<open>
  C10, the claim as stated fails: \<open>-10^21\<close> is a negative finite cost, and
  \<open>formatCost\<close> renders it as \<open>"$-1e+21"\<close>, not with 6 fractional digits.
\<close>

theorem formatCost_large_negative:
  "js_lt (lit (- (10 ^ 21))) (lit 0)
   \<and> formatCost (lit (- (10 ^ 21))) = Inr ''$-1e+21''
   \<and> cost_fraction_digits (formatCost (lit (- (10 ^ 21)))) \<noteq> Some 6"
proof (intro conjI)
  show "js_lt (lit (- (10 ^ 21))) (lit 0)" by (simp only: lit_large lit_thresholds) simp
  show "formatCost (lit (- (10 ^ 21))) = Inr ''$-1e+21''" by (rule formatCost_large)
  show "cost_fraction_digits (formatCost (lit (- (10 ^ 21)))) \<noteq> Some 6"
    by (simp only: formatCost_large cfd_strings) simp
qed

text \<open>
  C10, as the code has it. \<open>formatCost\<close> returns a string for every number and raises
  no error. For every negative finite cost above \<open>-10^21\<close> the test \<open>cost < 0.001\<close>
  holds and the result is the dollar sign, then the minus sign, then the magnitude with
  6 fractional digits: \<open>formatCost(-0.1) = "$-0.100000"\<close>. From \<open>-10^21\<close> down the
  rendering is in exponent notation: \<open>formatCost(-1e21) = "$-1e+21"\<close>.
\<close>

theorem formatCost_negative:
  "(\<exists>s. formatCost x = Inr s)
   \<and> (js_lt (Fin r) (lit 0) \<and> js_lt (lit (- (10 ^ 21))) (Fin r)
        \<longrightarrow> js_lt (Fin r) (lit (1 / 1000))
          \<and> (\<exists>t. formatCost (Fin r) = Inr (''$-'' @ t))
          \<and> cost_fraction_digits (formatCost (Fin r)) = Some 6)
   \<and> formatCost (lit (- 1 / 10)) = Inr ''$-0.100000''
   \<and> formatCost (lit (- (10 ^ 21))) = Inr ''$-1e+21''"
proof (intro conjI impI)
  show "\<exists>s. formatCost x = Inr s" by (rule formatCost_total)
  show "formatCost (lit (- 1 / 10)) = Inr ''$-0.100000''" by (rule formatCost_vectors)
  show "formatCost (lit (- (10 ^ 21))) = Inr ''$-1e+21''" by (rule formatCost_large)
next
  assume a: "js_lt (Fin r) (lit 0) \<and> js_lt (lit (- (10 ^ 21))) (Fin r)"
  then have "js_lt (Fin r) (Fin 0) \<and> js_lt (Fin (- (10 ^ 21))) (Fin r)"
    by (simp only: lit_large lit_thresholds)
  then have r: "r < 0" "- (10 ^ 21) < r" by simp_all
  then have b: "\<bar>r\<bar> < 10 ^ 21" by simp
  show "js_lt (Fin r) (lit (1 / 1000))" using r by (simp add: lit_thresholds)
  have f: "formatCost (Fin r) = dollar (toFixed (Fin r) 6)"
    using r by (simp add: formatCost_Fin)
  obtain s where s: "toFixed (Fin r) 6 = Inr s" "take 1 s = ''-''"
    using toFixed_fraction_digits [OF b, of 6] r by auto
  then obtain t where "s = ''-'' @ t" by (cases s) auto
  then show "\<exists>t. formatCost (Fin r) = Inr (''$-'' @ t)"
    using f s by (simp add: dollar_def)
  show "cost_fraction_digits (formatCost (Fin r)) = Some 6"
    using fraction_digits_by_tier [OF b] r by simp
qed

theorem formatCost_negative_witness:
  "js_lt (Fin (- 1 / 4)) (lit 0) \<and> js_lt (lit (- (10 ^ 21))) (Fin (- 1 / 4))
   \<and> (\<exists>t. formatCost (Fin (- 1 / 4)) = Inr (''$-'' @ t))
   \<and> cost_fraction_digits (formatCost (Fin (- 1 / 4))) = Some 6"
proof -
  have c: "js_lt (Fin (- 1 / 4)) (lit 0)" "js_lt (lit (- (10 ^ 21))) (Fin (- 1 / 4))"
    by (simp_all only: lit_thresholds lit_large) simp_all
  note n = formatCost_negative [of NaN "- 1 / 4", THEN conjunct2, THEN conjunct1, THEN mp,
      OF conjI, OF c]
  show ?thesis by (intro conjI c n [THEN conjunct2, THEN conjunct1] n [THEN conjunct2, THEN conjunct2])
qed

subsection \<open>The catalog\<close>

text \<open>
  C6, the claim as stated fails: for an identifier that is not in the catalog the lookup
  completes normally with \<open>undefined\<close>; it does not fail with a \<open>NotFound\<close> condition.
\<close>

theorem MODELS_find_unknown:
  "''unknown/model'' \<notin> set (map id_str MODELS)
   \<and> MODELS_find ''unknown/model'' = Inr None
   \<and> MODELS_find ''unknown/model'' \<noteq> Inl NotFound"
  by (simp add: MODELS_find_def MODELS_def)

text \<open>
  C6, as the code has it. Looking up an identifier of the catalog returns the one entry
  with that identifier; \<open>"openai/gpt-4o"\<close> gives the entry named \<open>"GPT-4o"\<close>. For an
  identifier that is not in the catalog the lookup raises nothing: \<open>MODELS.find\<close> returns
  \<open>undefined\<close>. No default entry stands in for it: the cost computation at the call
  site then throws a \<open>TypeError\<close>.
\<close>

theorem MODELS_find_spec:
  "(modelId \<in> set (map id_str MODELS) \<longrightarrow>
      (\<exists>m. MODELS_find modelId = Inr (Some m) \<and> m \<in> set MODELS \<and> id_str m = modelId
         \<and> (\<forall>m' \<in> set MODELS. id_str m' = modelId \<longrightarrow> m' = m)))
   \<and> (modelId \<notin> set (map id_str MODELS) \<longrightarrow>
      MODELS_find modelId = Inr None \<and> extraction_cost modelId p c = Inl TypeError)
   \<and> (\<exists>m. MODELS_find ''openai/gpt-4o'' = Inr (Some m) \<and> name m = ''GPT-4o'')"
proof (intro conjI impI)
  assume "modelId \<in> set (map id_str MODELS)"
  then obtain m where m: "m \<in> set MODELS" "id_str m = modelId" by auto
  have f: "MODELS_find modelId = Inr (Some m)"
    using find_in_distinct [OF MODELS_distinct m(1)] m(2) by (simp add: MODELS_find_def)
  have "m' = m" if "m' \<in> set MODELS" "id_str m' = modelId" for m'
    using find_in_distinct [OF MODELS_distinct that(1)] find_in_distinct [OF MODELS_distinct m(1)]
      that(2) m(2) by simp
  then show "\<exists>m. MODELS_find modelId = Inr (Some m) \<and> m \<in> set MODELS \<and> id_str m = modelId
         \<and> (\<forall>m' \<in> set MODELS. id_str m' = modelId \<longrightarrow> m' = m)"
    using f m by blast
next
  assume a: "modelId \<notin> set (map id_str MODELS)"
  then have n: "MODELS_find modelId = Inr None"
    unfolding MODELS_find_def using find_absent [of modelId id_str MODELS] by simp
  then show "MODELS_find modelId = Inr None" .
  show "extraction_cost modelId p c = Inl TypeError" by (simp add: extraction_cost_def n)
next
  show "\<exists>m. MODELS_find ''openai/gpt-4o'' = Inr (Some m) \<and> name m = ''GPT-4o''"
    by (simp add: MODELS_find_def MODELS_def)
qed

theorem MODELS_find_spec_witness:
  "''google/gemini-2.5-pro'' \<in> set (map id_str MODELS)
   \<and> (\<exists>m. MODELS_find ''google/gemini-2.5-pro'' = Inr (Some m) \<and> m \<in> set MODELS
          \<and> id_str m = ''google/gemini-2.5-pro'')
   \<and> ''gpt-4o'' \<notin> set (map id_str MODELS)
   \<and> MODELS_find ''gpt-4o'' = Inr None
   \<and> extraction_cost ''gpt-4o'' (Fin 1200) (Fin 300) = Inl TypeError"
proof -
  have a: "''google/gemini-2.5-pro'' \<in> set (map id_str MODELS)"
    and b: "''gpt-4o'' \<notin> set (map id_str MODELS)"
    by (simp_all add: MODELS_ids)
  from MODELS_find_spec [of "''google/gemini-2.5-pro''"]
    MODELS_find_spec [of "''gpt-4o''" "Fin 1200" "Fin 300"] a b
  show ?thesis by blast
qed

subsection \<open>The rate limiter\<close>

text \<open>
  C7, the claim as stated fails: the disabled state is not permanent. After a call that
  finds the configuration absent, a call that finds it present builds the handle, and a
  later call that again finds it absent is limited all the same: of three such calls
  the first returns \<open>limit: 0\<close>, the second and the third \<open>limit: 5\<close>.
\<close>

theorem checkRateLimit_not_permanent:
  "\<not> configured \<lparr>UPSTASH_REDIS_REST_URL = None, UPSTASH_REDIS_REST_TOKEN = None\<rparr>
   \<and> fst (run (\<lambda>url token. prefix ''https://'' url)
        [(\<lparr>UPSTASH_REDIS_REST_URL = None, UPSTASH_REDIS_REST_TOKEN = None\<rparr>, 0, ''203.0.113.7''),
         (\<lparr>UPSTASH_REDIS_REST_URL = Some ''https://store.example'',
           UPSTASH_REDIS_REST_TOKEN = Some ''secret''\<rparr>, 1, ''203.0.113.7''),
         (\<lparr>UPSTASH_REDIS_REST_URL = None, UPSTASH_REDIS_REST_TOKEN = None\<rparr>, 2, ''203.0.113.7'')]
        fresh_world)
     = [Inr \<lparr>success = True, limit = 0, remaining = 0, reset = 0\<rparr>,
        Inr \<lparr>success = True, limit = 5, remaining = 4, reset = 86400000\<rparr>,
        Inr \<lparr>success = True, limit = 5, remaining = 3, reset = 86400000\<rparr>]"
  by (simp add: fresh_world_def configured_def falsy_def checkRateLimit_def getRatelimit_def
      store_limit_def Let_def)

text \<open>
  C7, as the code has it. While no handle has been built and each call finds the store
  URL or the token absent (or empty), or a URL that does not start with \<open>https\<close>,
  \<open>checkRateLimit\<close> returns \<open>{success: true, limit: 0, remaining: 0, reset: 0}\<close> for
  every identifier and any number of calls; it builds no handle and sends nothing to
  the store, the shared state being left as it was. The limiter is not disabled for
  good: nothing records the outcome, the environment is read again at every call, and
  the first call that finds both values present, the URL starting with \<open>https\<close> and
  accepted by the client, builds the handle; that call and every later one, whatever
  it finds, go to the store and return \<open>limit: 5\<close>. A call that finds both values
  present and a URL that starts with \<open>https\<close> but that the client refuses (such as
  \<open>httpsfoo\<close>) is not answered permissively: the constructor throws, no handle is
  built and the state is left as it was.
\<close>

theorem checkRateLimit_disabled:
  assumes "ratelimit_var w = None" "\<forall>(e, now, identifier) \<in> set calls. \<not> configured e"
  shows "run accepts calls w =
       (replicate (length calls) (Inr \<lparr>success = True, limit = 0, remaining = 0, reset = 0\<rparr>), w)
     \<and> (configured e
          \<and> accepts (the (UPSTASH_REDIS_REST_URL e)) (the (UPSTASH_REDIS_REST_TOKEN e))
        \<longrightarrow> (\<exists>d1 d2.
              fst (run accepts (calls @ [(e, t, i), (e', t', i')]) w)
                = replicate (length calls)
                    (Inr \<lparr>success = True, limit = 0, remaining = 0, reset = 0\<rparr>)
                  @ [Inr d1, Inr d2]
              \<and> limit d1 = 5 \<and> limit d2 = 5)
            \<and> ratelimit_var (snd (run accepts (calls @ [(e, t, i)]) w)) \<noteq> None)
     \<and> (configured e
          \<and> \<not> accepts (the (UPSTASH_REDIS_REST_URL e)) (the (UPSTASH_REDIS_REST_TOKEN e))
        \<longrightarrow> run accepts (calls @ [(e, t, i)]) w
              = (replicate (length calls)
                    (Inr \<lparr>success = True, limit = 0, remaining = 0, reset = 0\<rparr>)
                  @ [Inl UrlError], w))"
proof (intro conjI impI)
  show off: "run accepts calls w =
       (replicate (length calls) (Inr \<lparr>success = True, limit = 0, remaining = 0, reset = 0\<rparr>), w)"
    using assms by (rule run_unconfigured)
  assume c: "configured e
          \<and> accepts (the (UPSTASH_REDIS_REST_URL e)) (the (UPSTASH_REDIS_REST_TOKEN e))"
  then have on: "limiter_on accepts w [(e, t, i)]"
    using assms(1) by (simp add: limiter_on_def)
  obtain w1 where first: "checkRateLimit accepts e t i w =
        (Inr \<lparr>success = counters w (i, t div 86400000) + 1 \<le> 5, limit = 5,
              remaining = 5 - (counters w (i, t div 86400000) + 1),
              reset = (t div 86400000 + 1) * 86400000\<rparr>, w1)"
    and v1: "ratelimit_var w1 \<noteq> None" and on1: "limiter_on accepts w1 [(e', t', i')]"
    using checkRateLimit_on [OF on] by blast
  obtain w2 where second: "checkRateLimit accepts e' t' i' w1 =
        (Inr \<lparr>success = counters w1 (i', t' div 86400000) + 1 \<le> 5, limit = 5,
              remaining = 5 - (counters w1 (i', t' div 86400000) + 1),
              reset = (t' div 86400000 + 1) * 86400000\<rparr>, w2)"
    using checkRateLimit_on [OF on1] by blast
  show "\<exists>d1 d2.
              fst (run accepts (calls @ [(e, t, i), (e', t', i')]) w)
                = replicate (length calls)
                    (Inr \<lparr>success = True, limit = 0, remaining = 0, reset = 0\<rparr>)
                  @ [Inr d1, Inr d2]
              \<and> limit d1 = 5 \<and> limit d2 = 5"
    by (simp add: run_append off first second)
  show "ratelimit_var (snd (run accepts (calls @ [(e, t, i)]) w)) \<noteq> None"
    using v1 by (simp add: run_append off first)
next
  have off: "run accepts calls w =
       (replicate (length calls) (Inr \<lparr>success = True, limit = 0, remaining = 0, reset = 0\<rparr>), w)"
    using assms by (rule run_unconfigured)
  assume "configured e
          \<and> \<not> accepts (the (UPSTASH_REDIS_REST_URL e)) (the (UPSTASH_REDIS_REST_TOKEN e))"
  then have "checkRateLimit accepts e t i w = (Inl UrlError, w)"
    using assms(1) by (simp add: checkRateLimit_rejected)
  then show "run accepts (calls @ [(e, t, i)]) w
              = (replicate (length calls)
                    (Inr \<lparr>success = True, limit = 0, remaining = 0, reset = 0\<rparr>)
                  @ [Inl UrlError], w)"
    by (simp add: run_append off)
qed

theorem checkRateLimit_disabled_witness:
  "ratelimit_var fresh_world = None
   \<and> \<not> configured \<lparr>UPSTASH_REDIS_REST_URL = None, UPSTASH_REDIS_REST_TOKEN = None\<rparr>
   \<and> \<not> configured \<lparr>UPSTASH_REDIS_REST_URL = Some ''http://store.example'',
                     UPSTASH_REDIS_REST_TOKEN = Some ''secret''\<rparr>
   \<and> run (\<lambda>url token. prefix ''https://'' url)
        (replicate 100
            (\<lparr>UPSTASH_REDIS_REST_URL = None, UPSTASH_REDIS_REST_TOKEN = None\<rparr>, 0, ''203.0.113.7'')
          @ [(\<lparr>UPSTASH_REDIS_REST_URL = Some ''http://store.example'',
               UPSTASH_REDIS_REST_TOKEN = Some ''secret''\<rparr>, 1, ''203.0.113.8'')])
        fresh_world
       = (replicate 101 (Inr \<lparr>success = True, limit = 0, remaining = 0, reset = 0\<rparr>), fresh_world)
   \<and> configured \<lparr>UPSTASH_REDIS_REST_URL = Some ''https://store.example'',
                   UPSTASH_REDIS_REST_TOKEN = Some ''secret''\<rparr>
   \<and> ratelimit_var (snd (run (\<lambda>url token. prefix ''https://'' url)
        (replicate 100
            (\<lparr>UPSTASH_REDIS_REST_URL = None, UPSTASH_REDIS_REST_TOKEN = None\<rparr>, 0, ''203.0.113.7'')
          @ [(\<lparr>UPSTASH_REDIS_REST_URL = Some ''http://store.example'',
               UPSTASH_REDIS_REST_TOKEN = Some ''secret''\<rparr>, 1, ''203.0.113.8'')]
          @ [(\<lparr>UPSTASH_REDIS_REST_URL = Some ''https://store.example'',
               UPSTASH_REDIS_REST_TOKEN = Some ''secret''\<rparr>, 2, ''203.0.113.8'')])
        fresh_world)) \<noteq> None
   \<and> configured \<lparr>UPSTASH_REDIS_REST_URL = Some ''httpsfoo'',
                   UPSTASH_REDIS_REST_TOKEN = Some ''secret''\<rparr>
   \<and> fst (run (\<lambda>url token. prefix ''https://'' url)
        (replicate 100
            (\<lparr>UPSTASH_REDIS_REST_URL = None, UPSTASH_REDIS_REST_TOKEN = None\<rparr>, 0, ''203.0.113.7'')
          @ [(\<lparr>UPSTASH_REDIS_REST_URL = Some ''http://store.example'',
               UPSTASH_REDIS_REST_TOKEN = Some ''secret''\<rparr>, 1, ''203.0.113.8'')]
          @ [(\<lparr>UPSTASH_REDIS_REST_URL = Some ''httpsfoo'',
               UPSTASH_REDIS_REST_TOKEN = Some ''secret''\<rparr>, 2, ''203.0.113.8'')])
        fresh_world)
       = replicate 101 (Inr \<lparr>success = True, limit = 0, remaining = 0, reset = 0\<rparr>)
         @ [Inl UrlError]"
  (is "?a \<and> ?b1 \<and> ?b2 \<and> ?r \<and> ?c \<and> ?v \<and> ?c2 \<and> ?x")
proof -
  have a: ?a by (simp add: fresh_world_def)
  have b: ?b1 ?b2 by (simp_all add: configured_def falsy_def)
  have c: ?c by (simp add: configured_def falsy_def)
  have acc: "(\<lambda>url token. prefix ''https://'' url)
      (the (UPSTASH_REDIS_REST_URL \<lparr>UPSTASH_REDIS_REST_URL = Some ''https://store.example'',
                   UPSTASH_REDIS_REST_TOKEN = Some ''secret''\<rparr>))
      (the (UPSTASH_REDIS_REST_TOKEN \<lparr>UPSTASH_REDIS_REST_URL = Some ''https://store.example'',
                   UPSTASH_REDIS_REST_TOKEN = Some ''secret''\<rparr>))"
    by simp
  have u: "\<forall>(e, now, identifier) \<in> set (replicate 100
            (\<lparr>UPSTASH_REDIS_REST_URL = None, UPSTASH_REDIS_REST_TOKEN = None\<rparr>, 0::nat, ''203.0.113.7'')
          @ [(\<lparr>UPSTASH_REDIS_REST_URL = Some ''http://store.example'',
               UPSTASH_REDIS_REST_TOKEN = Some ''secret''\<rparr>, 1, ''203.0.113.8'')]).
        \<not> configured e"
    using b by simp
  note d = checkRateLimit_disabled [OF a u, where accepts = "\<lambda>url token. prefix ''https://'' url"
      and e = "\<lparr>UPSTASH_REDIS_REST_URL = Some ''https://store.example'',
                   UPSTASH_REDIS_REST_TOKEN = Some ''secret''\<rparr>" and t = 2 and i = "''203.0.113.8''"]
  have r: ?r using d [THEN conjunct1] by simp
  have v: ?v using d [THEN conjunct2, THEN conjunct1, THEN mp, OF conjI, OF c acc, THEN conjunct2]
    by simp
  have c2: ?c2 by (simp add: configured_def falsy_def)
  have rej: "\<not> (\<lambda>url token. prefix ''https://'' url)
      (the (UPSTASH_REDIS_REST_URL \<lparr>UPSTASH_REDIS_REST_URL = Some ''httpsfoo'',
                   UPSTASH_REDIS_REST_TOKEN = Some ''secret''\<rparr>))
      (the (UPSTASH_REDIS_REST_TOKEN \<lparr>UPSTASH_REDIS_REST_URL = Some ''httpsfoo'',
                   UPSTASH_REDIS_REST_TOKEN = Some ''secret''\<rparr>))"
    by simp
  note d2 = checkRateLimit_disabled [OF a u, where accepts = "\<lambda>url token. prefix ''https://'' url"
      and e = "\<lparr>UPSTASH_REDIS_REST_URL = Some ''httpsfoo'',
                   UPSTASH_REDIS_REST_TOKEN = Some ''secret''\<rparr>" and t = 2 and i = "''203.0.113.8''"]
  have x: ?x using d2 [THEN conjunct2, THEN conjunct2, THEN mp, OF conjI, OF c2 rej] by simp
  show ?thesis by (intro conjI a b r c v c2 x)
qed

text \<open>
  C8. Once \<open>_ratelimit\<close> holds a handle, every later call obtains that same handle,
  whatever environment it meets: the variable is never cleared and no other handle is
  built. In any sequence of calls no two calls obtain different handles, a handle that
  \<open>getRatelimit\<close> returns is the one it leaves in \<open>_ratelimit\<close>, and a process that
  starts without a handle constructs at most one. This holds whatever the constructors
  accept: a call in which they throw builds nothing and leaves \<open>_ratelimit\<close> as it was.
\<close>

theorem ratelimit_handle_cached:
  "(ratelimit_var w = Some h \<longrightarrow>
      handles accepts calls w = replicate (length calls) (Some h)
      \<and> ratelimit_var (snd (run accepts calls w)) = Some h
      \<and> constructed (snd (run accepts calls w)) = constructed w)
   \<and> (Some h1 \<in> set (handles accepts calls w) \<and> Some h2 \<in> set (handles accepts calls w)
        \<longrightarrow> h1 = h2)
   \<and> (fst (getRatelimit accepts e w) = Inr (Some h)
        \<longrightarrow> ratelimit_var (snd (getRatelimit accepts e w)) = Some h)
   \<and> (ratelimit_var w = None
        \<longrightarrow> constructed (snd (run accepts calls w)) \<le> constructed w + 1)"
  using run_cached [of w h accepts calls] handles_agree [of h1 accepts calls w h2]
    getRatelimit_caches [of accepts e w h] constructed_once [of w accepts calls]
  by blast

theorem ratelimit_handle_cached_witness:
  "ratelimit_var fresh_world = None
   \<and> handles (\<lambda>url token. prefix ''https://'' url)
        [(\<lparr>UPSTASH_REDIS_REST_URL = None, UPSTASH_REDIS_REST_TOKEN = None\<rparr>, 0, ''a''),
         (\<lparr>UPSTASH_REDIS_REST_URL = Some ''httpsfoo'', UPSTASH_REDIS_REST_TOKEN = Some ''r''\<rparr>, 1, ''a''),
         (\<lparr>UPSTASH_REDIS_REST_URL = Some ''https://one.example'', UPSTASH_REDIS_REST_TOKEN = Some ''s''\<rparr>, 2, ''a''),
         (\<lparr>UPSTASH_REDIS_REST_URL = Some ''https://two.example'', UPSTASH_REDIS_REST_TOKEN = Some ''t''\<rparr>, 3, ''a''),
         (\<lparr>UPSTASH_REDIS_REST_URL = None, UPSTASH_REDIS_REST_TOKEN = None\<rparr>, 4, ''b'')]
        fresh_world
      = [None, None,
         Some \<lparr>redis_url = ''https://one.example'', redis_token = ''s'', tokens = 5,
               window_ms = 86400000, analytics = True, serial = 0\<rparr>,
         Some \<lparr>redis_url = ''https://one.example'', redis_token = ''s'', tokens = 5,
               window_ms = 86400000, analytics = True, serial = 0\<rparr>,
         Some \<lparr>redis_url = ''https://one.example'', redis_token = ''s'', tokens = 5,
               window_ms = 86400000, analytics = True, serial = 0\<rparr>]
   \<and> constructed (snd (run (\<lambda>url token. prefix ''https://'' url)
        [(\<lparr>UPSTASH_REDIS_REST_URL = None, UPSTASH_REDIS_REST_TOKEN = None\<rparr>, 0, ''a''),
         (\<lparr>UPSTASH_REDIS_REST_URL = Some ''httpsfoo'', UPSTASH_REDIS_REST_TOKEN = Some ''r''\<rparr>, 1, ''a''),
         (\<lparr>UPSTASH_REDIS_REST_URL = Some ''https://one.example'', UPSTASH_REDIS_REST_TOKEN = Some ''s''\<rparr>, 2, ''a''),
         (\<lparr>UPSTASH_REDIS_REST_URL = Some ''https://two.example'', UPSTASH_REDIS_REST_TOKEN = Some ''t''\<rparr>, 3, ''a''),
         (\<lparr>UPSTASH_REDIS_REST_URL = None, UPSTASH_REDIS_REST_TOKEN = None\<rparr>, 4, ''b'')]
        fresh_world)) \<le> constructed fresh_world + 1"
  (is "?a \<and> ?b \<and> ?c")
proof -
  have a: ?a by (simp add: fresh_world_def)
  have b: ?b
    by (simp add: fresh_world_def getRatelimit_def checkRateLimit_def store_limit_def falsy_def
        Let_def)
  have c: ?c
    by (rule ratelimit_handle_cached [THEN conjunct2, THEN conjunct2, THEN conjunct2, THEN mp])
      (rule a)
  show ?thesis by (intro conjI a b c)
qed

text \<open>
  C9. With the limiter on and the store a fixed-window counter of quota 5 per identifier
  and day, the outcome of every call of any sequence depends only on the calls with its
  identifier in its window: it is admitted exactly when the count of that identifier in
  that window, this call included, is at most 5, with the rest of the quota remaining,
  0 once the quota is spent. So, wherever the process stands, cold or with the handle
  cached: of six calls for one identifier within one window the first five are
  admitted, with 4, 3, 2, 1 and 0 remaining, and the sixth is rejected with 0
  remaining; a call for another identifier in the same window is admitted.
\<close>

theorem fixed_window_quota:
  "(limiter_on accepts w calls \<longrightarrow>
      (\<forall>k < length calls.
          fst (run accepts calls w) ! k =
            Inr \<lparr>success = counters w (snd (snd (calls ! k)), fst (snd (calls ! k)) div 86400000)
                              + earlier_same calls k + 1 \<le> 5,
                 limit = 5,
                 remaining = 5 - (counters w (snd (snd (calls ! k)),
                                              fst (snd (calls ! k)) div 86400000)
                              + earlier_same calls k + 1),
                 reset = (fst (snd (calls ! k)) div 86400000 + 1) * 86400000\<rparr>))
   \<and> (limiter_on accepts w [(e1, t1, a), (e2, t2, a), (e3, t3, a), (e4, t4, a), (e5, t5, a),
                              (e6, t6, a), (e7, t7, b)]
        \<and> a \<noteq> b
        \<and> t1 div 86400000 = d \<and> t2 div 86400000 = d \<and> t3 div 86400000 = d
        \<and> t4 div 86400000 = d \<and> t5 div 86400000 = d \<and> t6 div 86400000 = d
        \<and> t7 div 86400000 = d
        \<and> counters w (a, d) = 0 \<and> counters w (b, d) = 0
      \<longrightarrow> map (map_sum id success)
            (fst (run accepts [(e1, t1, a), (e2, t2, a), (e3, t3, a), (e4, t4, a), (e5, t5, a),
                               (e6, t6, a), (e7, t7, b)] w))
            = [Inr True, Inr True, Inr True, Inr True, Inr True, Inr False, Inr True]
          \<and> map (map_sum id remaining)
            (fst (run accepts [(e1, t1, a), (e2, t2, a), (e3, t3, a), (e4, t4, a), (e5, t5, a),
                               (e6, t6, a), (e7, t7, b)] w))
            = [Inr 4, Inr 3, Inr 2, Inr 1, Inr 0, Inr 0, Inr 4]
          \<and> map (map_sum id limit)
            (fst (run accepts [(e1, t1, a), (e2, t2, a), (e3, t3, a), (e4, t4, a), (e5, t5, a),
                               (e6, t6, a), (e7, t7, b)] w))
            = [Inr 5, Inr 5, Inr 5, Inr 5, Inr 5, Inr 5, Inr 5])"
proof (intro conjI allI impI)
  fix k
  assume "limiter_on accepts w calls" "k < length calls"
  then show "fst (run accepts calls w) ! k =
            Inr \<lparr>success = counters w (snd (snd (calls ! k)), fst (snd (calls ! k)) div 86400000)
                              + earlier_same calls k + 1 \<le> 5,
                 limit = 5,
                 remaining = 5 - (counters w (snd (snd (calls ! k)),
                                              fst (snd (calls ! k)) div 86400000)
                              + earlier_same calls k + 1),
                 reset = (fst (snd (calls ! k)) div 86400000 + 1) * 86400000\<rparr>"
    by (rule run_on)
next
  assume h: "limiter_on accepts w [(e1, t1, a), (e2, t2, a), (e3, t3, a), (e4, t4, a), (e5, t5, a),
                              (e6, t6, a), (e7, t7, b)]
        \<and> a \<noteq> b
        \<and> t1 div 86400000 = d \<and> t2 div 86400000 = d \<and> t3 div 86400000 = d
        \<and> t4 div 86400000 = d \<and> t5 div 86400000 = d \<and> t6 div 86400000 = d
        \<and> t7 div 86400000 = d
        \<and> counters w (a, d) = 0 \<and> counters w (b, d) = 0"
  then have on: "limiter_on accepts w [(e1, t1, a), (e2, t2, a), (e3, t3, a), (e4, t4, a),
      (e5, t5, a), (e6, t6, a), (e7, t7, b)]"
    by blast
  have k: "a \<noteq> b" "t1 div 86400000 = d" "t2 div 86400000 = d" "t3 div 86400000 = d"
    "t4 div 86400000 = d" "t5 div 86400000 = d" "t6 div 86400000 = d" "t7 div 86400000 = d"
    "counters w (a, d) = 0" "counters w (b, d) = 0"
    using h by blast+
  obtain w1 where s1: "checkRateLimit accepts e1 t1 a w =
        (Inr \<lparr>success = counters w (a, t1 div 86400000) + 1 \<le> 5, limit = 5,
              remaining = 5 - (counters w (a, t1 div 86400000) + 1),
              reset = (t1 div 86400000 + 1) * 86400000\<rparr>, w1)"
    and c1: "counters w1 = (counters w)((a, t1 div 86400000) := counters w (a, t1 div 86400000) + 1)"
    and o1: "\<And>later. limiter_on accepts w1 later"
    using checkRateLimit_on [OF on] by blast
  obtain w2 where s2: "checkRateLimit accepts e2 t2 a w1 =
        (Inr \<lparr>success = counters w1 (a, t2 div 86400000) + 1 \<le> 5, limit = 5,
              remaining = 5 - (counters w1 (a, t2 div 86400000) + 1),
              reset = (t2 div 86400000 + 1) * 86400000\<rparr>, w2)"
    and c2: "counters w2 = (counters w1)((a, t2 div 86400000) := counters w1 (a, t2 div 86400000) + 1)"
    and o2: "\<And>later. limiter_on accepts w2 later"
    using checkRateLimit_on [OF o1 [of "[(e2, t2, a)]"]] by blast
  obtain w3 where s3: "checkRateLimit accepts e3 t3 a w2 =
        (Inr \<lparr>success = counters w2 (a, t3 div 86400000) + 1 \<le> 5, limit = 5,
              remaining = 5 - (counters w2 (a, t3 div 86400000) + 1),
              reset = (t3 div 86400000 + 1) * 86400000\<rparr>, w3)"
    and c3: "counters w3 = (counters w2)((a, t3 div 86400000) := counters w2 (a, t3 div 86400000) + 1)"
    and o3: "\<And>later. limiter_on accepts w3 later"
    using checkRateLimit_on [OF o2 [of "[(e3, t3, a)]"]] by blast
  obtain w4 where s4: "checkRateLimit accepts e4 t4 a w3 =
        (Inr \<lparr>success = counters w3 (a, t4 div 86400000) + 1 \<le> 5, limit = 5,
              remaining = 5 - (counters w3 (a, t4 div 86400000) + 1),
              reset = (t4 div 86400000 + 1) * 86400000\<rparr>, w4)"
    and c4: "counters w4 = (counters w3)((a, t4 div 86400000) := counters w3 (a, t4 div 86400000) + 1)"
    and o4: "\<And>later. limiter_on accepts w4 later"
    using checkRateLimit_on [OF o3 [of "[(e4, t4, a)]"]] by blast
  obtain w5 where s5: "checkRateLimit accepts e5 t5 a w4 =
        (Inr \<lparr>success = counters w4 (a, t5 div 86400000) + 1 \<le> 5, limit = 5,
              remaining = 5 - (counters w4 (a, t5 div 86400000) + 1),
              reset = (t5 div 86400000 + 1) * 86400000\<rparr>, w5)"
    and c5: "counters w5 = (counters w4)((a, t5 div 86400000) := counters w4 (a, t5 div 86400000) + 1)"
    and o5: "\<And>later. limiter_on accepts w5 later"
    using checkRateLimit_on [OF o4 [of "[(e5, t5, a)]"]] by blast
  obtain w6 where s6: "checkRateLimit accepts e6 t6 a w5 =
        (Inr \<lparr>success = counters w5 (a, t6 div 86400000) + 1 \<le> 5, limit = 5,
              remaining = 5 - (counters w5 (a, t6 div 86400000) + 1),
              reset = (t6 div 86400000 + 1) * 86400000\<rparr>, w6)"
    and c6: "counters w6 = (counters w5)((a, t6 div 86400000) := counters w5 (a, t6 div 86400000) + 1)"
    and o6: "\<And>later. limiter_on accepts w6 later"
    using checkRateLimit_on [OF o5 [of "[(e6, t6, a)]"]] by blast
  obtain w7 where s7: "checkRateLimit accepts e7 t7 b w6 =
        (Inr \<lparr>success = counters w6 (b, t7 div 86400000) + 1 \<le> 5, limit = 5,
              remaining = 5 - (counters w6 (b, t7 div 86400000) + 1),
              reset = (t7 div 86400000 + 1) * 86400000\<rparr>, w7)"
    using checkRateLimit_on [OF o6 [of "[(e7, t7, b)]"]] by blast
  have r: "fst (run accepts [(e1, t1, a), (e2, t2, a), (e3, t3, a), (e4, t4, a), (e5, t5, a),
                               (e6, t6, a), (e7, t7, b)] w) =
      [fst (checkRateLimit accepts e1 t1 a w), fst (checkRateLimit accepts e2 t2 a w1),
       fst (checkRateLimit accepts e3 t3 a w2), fst (checkRateLimit accepts e4 t4 a w3),
       fst (checkRateLimit accepts e5 t5 a w4), fst (checkRateLimit accepts e6 t6 a w5),
       fst (checkRateLimit accepts e7 t7 b w6)]"
    by (simp add: s1 s2 s3 s4 s5 s6 s7)
  have n: "counters w (a, d) = 0" "counters w1 (a, d) = 1" "counters w2 (a, d) = 2"
    "counters w3 (a, d) = 3" "counters w4 (a, d) = 4" "counters w5 (a, d) = 5"
    "counters w6 (b, d) = 0"
    using k by (auto simp: c1 c2 c3 c4 c5 c6)
  show "map (map_sum id success)
            (fst (run accepts [(e1, t1, a), (e2, t2, a), (e3, t3, a), (e4, t4, a), (e5, t5, a),
                               (e6, t6, a), (e7, t7, b)] w))
            = [Inr True, Inr True, Inr True, Inr True, Inr True, Inr False, Inr True]"
    unfolding r using k n by (simp add: s1 s2 s3 s4 s5 s6 s7)
  show "map (map_sum id remaining)
            (fst (run accepts [(e1, t1, a), (e2, t2, a), (e3, t3, a), (e4, t4, a), (e5, t5, a),
                               (e6, t6, a), (e7, t7, b)] w))
            = [Inr 4, Inr 3, Inr 2, Inr 1, Inr 0, Inr 0, Inr 4]"
    unfolding r using k n by (simp add: s1 s2 s3 s4 s5 s6 s7)
  show "map (map_sum id limit)
            (fst (run accepts [(e1, t1, a), (e2, t2, a), (e3, t3, a), (e4, t4, a), (e5, t5, a),
                               (e6, t6, a), (e7, t7, b)] w))
            = [Inr 5, Inr 5, Inr 5, Inr 5, Inr 5, Inr 5, Inr 5]"
    unfolding r by (simp add: s1 s2 s3 s4 s5 s6 s7)
qed

theorem fixed_window_quota_witness:
  "limiter_on (\<lambda>url token. prefix ''https://'' url) fresh_world
      [(\<lparr>UPSTASH_REDIS_REST_URL = Some ''https://store.example'', UPSTASH_REDIS_REST_TOKEN = Some ''secret''\<rparr>, 86400000, ''198.51.100.1''),
       (\<lparr>UPSTASH_REDIS_REST_URL = Some ''https://store.example'', UPSTASH_REDIS_REST_TOKEN = Some ''secret''\<rparr>, 86400001, ''198.51.100.1''),
       (\<lparr>UPSTASH_REDIS_REST_URL = Some ''https://store.example'', UPSTASH_REDIS_REST_TOKEN = Some ''secret''\<rparr>, 86400002, ''198.51.100.1''),
       (\<lparr>UPSTASH_REDIS_REST_URL = Some ''https://store.example'', UPSTASH_REDIS_REST_TOKEN = Some ''secret''\<rparr>, 90000000, ''198.51.100.1''),
       (\<lparr>UPSTASH_REDIS_REST_URL = Some ''https://store.example'', UPSTASH_REDIS_REST_TOKEN = Some ''secret''\<rparr>, 100000000, ''198.51.100.1''),
       (\<lparr>UPSTASH_REDIS_REST_URL = Some ''https://store.example'', UPSTASH_REDIS_REST_TOKEN = Some ''secret''\<rparr>, 172799998, ''198.51.100.1''),
       (\<lparr>UPSTASH_REDIS_REST_URL = Some ''https://store.example'', UPSTASH_REDIS_REST_TOKEN = Some ''secret''\<rparr>, 172799999, ''198.51.100.2'')]
   \<and> map (map_sum id success) (fst (run (\<lambda>url token. prefix ''https://'' url)
      [(\<lparr>UPSTASH_REDIS_REST_URL = Some ''https://store.example'', UPSTASH_REDIS_REST_TOKEN = Some ''secret''\<rparr>, 86400000, ''198.51.100.1''),
       (\<lparr>UPSTASH_REDIS_REST_URL = Some ''https://store.example'', UPSTASH_REDIS_REST_TOKEN = Some ''secret''\<rparr>, 86400001, ''198.51.100.1''),
       (\<lparr>UPSTASH_REDIS_REST_URL = Some ''https://store.example'', UPSTASH_REDIS_REST_TOKEN = Some ''secret''\<rparr>, 86400002, ''198.51.100.1''),
       (\<lparr>UPSTASH_REDIS_REST_URL = Some ''https://store.example'', UPSTASH_REDIS_REST_TOKEN = Some ''secret''\<rparr>, 90000000, ''198.51.100.1''),
       (\<lparr>UPSTASH_REDIS_REST_URL = Some ''https://store.example'', UPSTASH_REDIS_REST_TOKEN = Some ''secret''\<rparr>, 100000000, ''198.51.100.1''),
       (\<lparr>UPSTASH_REDIS_REST_URL = Some ''https://store.example'', UPSTASH_REDIS_REST_TOKEN = Some ''secret''\<rparr>, 172799998, ''198.51.100.1''),
       (\<lparr>UPSTASH_REDIS_REST_URL = Some ''https://store.example'', UPSTASH_REDIS_REST_TOKEN = Some ''secret''\<rparr>, 172799999, ''198.51.100.2'')]
      fresh_world))
    = [Inr True, Inr True, Inr True, Inr True, Inr True, Inr False, Inr True]
   \<and> limiter_on (\<lambda>url token. False)
      \<lparr>ratelimit_var = Some \<lparr>redis_url = ''https://store.example'', redis_token = ''secret'',
           tokens = 5, window_ms = 86400000, analytics = True, serial = 0\<rparr>,
        constructed = 1, counters = (\<lambda>key. if key = (''198.51.100.9'', 3) then 6 else 0),
        store_requests = 6\<rparr>
      [(\<lparr>UPSTASH_REDIS_REST_URL = None, UPSTASH_REDIS_REST_TOKEN = None\<rparr>, 259200000, ''198.51.100.1''),
       (\<lparr>UPSTASH_REDIS_REST_URL = None, UPSTASH_REDIS_REST_TOKEN = None\<rparr>, 259200001, ''198.51.100.1''),
       (\<lparr>UPSTASH_REDIS_REST_URL = None, UPSTASH_REDIS_REST_TOKEN = None\<rparr>, 259200002, ''198.51.100.1''),
       (\<lparr>UPSTASH_REDIS_REST_URL = None, UPSTASH_REDIS_REST_TOKEN = None\<rparr>, 259200003, ''198.51.100.1''),
       (\<lparr>UPSTASH_REDIS_REST_URL = None, UPSTASH_REDIS_REST_TOKEN = None\<rparr>, 259200004, ''198.51.100.1''),
       (\<lparr>UPSTASH_REDIS_REST_URL = None, UPSTASH_REDIS_REST_TOKEN = None\<rparr>, 259200005, ''198.51.100.1''),
       (\<lparr>UPSTASH_REDIS_REST_URL = None, UPSTASH_REDIS_REST_TOKEN = None\<rparr>, 259200006, ''198.51.100.2'')]
   \<and> map (map_sum id remaining) (fst (run (\<lambda>url token. False)
      [(\<lparr>UPSTASH_REDIS_REST_URL = None, UPSTASH_REDIS_REST_TOKEN = None\<rparr>, 259200000, ''198.51.100.1''),
       (\<lparr>UPSTASH_REDIS_REST_URL = None, UPSTASH_REDIS_REST_TOKEN = None\<rparr>, 259200001, ''198.51.100.1''),
       (\<lparr>UPSTASH_REDIS_REST_URL = None, UPSTASH_REDIS_REST_TOKEN = None\<rparr>, 259200002, ''198.51.100.1''),
       (\<lparr>UPSTASH_REDIS_REST_URL = None, UPSTASH_REDIS_REST_TOKEN = None\<rparr>, 259200003, ''198.51.100.1''),
       (\<lparr>UPSTASH_REDIS_REST_URL = None, UPSTASH_REDIS_REST_TOKEN = None\<rparr>, 259200004, ''198.51.100.1''),
       (\<lparr>UPSTASH_REDIS_REST_URL = None, UPSTASH_REDIS_REST_TOKEN = None\<rparr>, 259200005, ''198.51.100.1''),
       (\<lparr>UPSTASH_REDIS_REST_URL = None, UPSTASH_REDIS_REST_TOKEN = None\<rparr>, 259200006, ''198.51.100.2'')]
      \<lparr>ratelimit_var = Some \<lparr>redis_url = ''https://store.example'', redis_token = ''secret'',
           tokens = 5, window_ms = 86400000, analytics = True, serial = 0\<rparr>,
        constructed = 1, counters = (\<lambda>key. if key = (''198.51.100.9'', 3) then 6 else 0),
        store_requests = 6\<rparr>))
    = [Inr 4, Inr 3, Inr 2, Inr 1, Inr 0, Inr 0, Inr 4]"
  (is "?cold \<and> ?cold_result \<and> ?warm \<and> ?warm_result")
proof -
  have cold: ?cold by (simp add: limiter_on_def fresh_world_def configured_def falsy_def)
  have warm: ?warm by (simp add: limiter_on_def)
  have cold_result: ?cold_result
    by (rule fixed_window_quota [where d = 1, THEN conjunct2, THEN mp, THEN conjunct1])
      (intro conjI cold, simp_all add: fresh_world_def)
  have warm_result: ?warm_result
    by (rule fixed_window_quota [where d = 3, THEN conjunct2, THEN mp, THEN conjunct2,
          THEN conjunct1])
      (intro conjI warm, simp_all)
  show ?thesis by (intro conjI cold cold_result warm warm_result)
qed

end
